theory Spec2Isabelle
  imports Complex_Main "HOL-Library.Word"
begin

unbundle bit_operations_syntax

section \<open>HexBoard firmware: MIDI/MPE channel allocator, synth voice allocator, envelope engine\<close>

text \<open>
  The model follows the firmware source function by function. C++ integers are machine
  words (\<open>byte\<close> is \<open>8 word\<close>, \<open>int16_t\<close> is \<open>16 word\<close> read with \<open>sint\<close>,
  \<open>uint32_t\<close> is \<open>32 word\<close>). The global variables of the sketch are the fields of one
  record that every function takes and returns. \<open>float\<close> values are read as real numbers.
  Messages handed to the MIDI library and lines printed by \<open>sendToLog\<close> are appended
  to output lists of the state.
\<close>

type_synonym byte = "8 word"

subsection \<open>Data model\<close>

text \<open>
  The fields of \<open>buttonDef\<close> that the note functions read or write. The source field
  \<open>note\<close> is called \<open>noteNum\<close> here. Fields that only serve the scanner, the LEDs and the
  external MIDI input are left out.
\<close>

record buttonDef =
  isCmd :: bool
  stepsFromC :: "16 word"
  noteNum :: byte
  bend :: "16 word"
  MIDIch :: byte
  synthCh :: byte
  frequency :: real
  jiRetune :: "16 word"
  jiFrequencyMultiplier :: real
  mappedMidiChannel :: byte

datatype midi_msg =
    BeginRpn nat byte
  | SendRpnValue nat byte
  | EndRpn byte
  | SendControlChange byte byte byte
  | SendPitchBend int byte
  | SendAfterTouch int byte
  | SendNoteOn byte int byte
  | SendNoteOff byte int byte

text \<open>One constructor per \<open>sendToLog\<close> call site, carrying the numbers the line prints.\<close>

datatype log_line =
    LogAddedToPool byte
  | LogReturnedToPool byte
  | LogSetPitchBendRange byte byte
  | LogTriedMPEZone byte byte
  | LogNoMPEChannels
  | LogMPEPoolEmpty
  | LogAssignedFromPool byte
  | LogSentPitchBend int byte
  | LogSentNoteOn byte int byte
  | LogSentNoteOff byte int byte
  | LogSynthAllFiring
  | LogStoleSynthChannel byte
  | LogPoppedSynthQueue byte

datatype EnvelopeStage = Idle | Attack | Decay | Sustain | Release

datatype EnvelopeCommand = CmdNone | StartAttack | StartRelease | Reset

record EnvelopeParams =
  attackTicks :: "32 word"
  decayTicks :: "32 word"
  releaseTicks :: "32 word"
  attackIncrement :: "32 word"
  decayIncrement :: "32 word"
  sustainLevel :: "16 word"

text \<open>
  The firmware keeps one array per attribute of a voice (\<open>envelopeStates\<close>,
  \<open>envelopeCommands\<close>, \<open>channelInUse\<close>, \<open>envelopeNeedsFree\<close>, \<open>voiceGenerations\<close>,
  \<open>synthChannelOwners\<close>, \<open>synth\<close>, \<open>releaseRetries\<close>, \<open>releaseRetryCountdown\<close>), all
  of length \<open>POLYPHONY_LIMIT\<close> and all indexed by the voice. The record below is the slice
  of these arrays at one index. Of the oscillator only \<open>increment\<close> and \<open>counter\<close>
  are kept: the wave-shape fields feed the output sample and nothing else.
\<close>

record voice =
  level :: "32 word"
  releaseIncrement :: "32 word"
  stage :: EnvelopeStage
  command :: EnvelopeCommand
  channelInUse :: bool
  envelopeNeedsFree :: bool
  voiceGeneration :: "32 word"
  synthChannelOwner :: "16 word"
  increment :: "16 word"
  counter :: "16 word"
  releaseRetries :: byte
  releaseRetryCountdown :: byte

record state =
  debugMessages :: bool
  mpeUserMode :: byte
  extraMPE :: bool
  standardMidiMicrotonalActive :: bool
  mpeLowestChannel :: byte
  mpeHighestChannel :: byte
  mpeLowPriorityMode :: bool
  CC74value :: byte
  defaultMidiChannel :: byte
  justIntonationBPM :: byte
  justIntonationBPM_Multiplier :: byte
  useJustIntonationBPM :: bool
  useDynamicJustIntonation :: bool
  MPEpitchBendSemis :: byte
  midiD :: byte
  mpeAvailableChannels :: "byte list"
  MPEpitchBendsNeeded :: byte
  mpeChannelQueueActive :: bool
  velWheel_curValue :: "16 word"
  tuning_stepSize :: real
  tuning_spanCtoA :: int
  pressedKeyIDs :: "byte list"
  h :: "byte \<Rightarrow> buttonDef"
  usbOut :: "midi_msg list"
  serialOut :: "midi_msg list"
  logOut :: "log_line list"
  playbackMode :: byte
  envelopeParams :: EnvelopeParams
  voices :: "voice list"
  nextVoiceGeneration :: "32 word"
  synthChQueue :: "byte list"
  arpeggiatingNow :: byte
  pitchBendFactor :: real
  envelopeAttackIndex :: byte
  envelopeDecayIndex :: byte
  envelopeSustainLevel :: byte
  envelopeReleaseIndex :: byte

definition MPE_MODE_DISABLE :: byte where "MPE_MODE_DISABLE = 1"
definition MPE_MODE_FORCE :: byte where "MPE_MODE_FORCE = 2"
definition MIDID_USB :: byte where "MIDID_USB = 1"
definition MIDID_SER :: byte where "MIDID_SER = 2"
definition BTN_COUNT :: nat where "BTN_COUNT = 10 * 16"
definition UNUSED_NOTE :: byte where "UNUSED_NOTE = 255"
definition POLYPHONY_LIMIT :: nat where "POLYPHONY_LIMIT = 8"
definition SYNTH_OFF :: byte where "SYNTH_OFF = 0"
definition SYNTH_POLY :: byte where "SYNTH_POLY = 3"
definition NO_SYNTH_OWNER :: "16 word" where "NO_SYNTH_OWNER = - 1"
definition POLL_INTERVAL_IN_MICROSECONDS :: "32 word" where "POLL_INTERVAL_IN_MICROSECONDS = 24"
definition envelopeMaxLevel :: "32 word" where "envelopeMaxLevel = 65535"
definition envelopeTimeMicrosOptions :: "32 word list" where
  "envelopeTimeMicrosOptions =
     [0, 5000, 10000, 20000, 50000, 100000, 200000, 500000, 1000000, 2000000]"

subsection \<open>Helpers\<close>

text \<open>\<open>sendToLog\<close> prints the line to the serial port only if \<open>debugMessages\<close> is set.\<close>

definition sendToLog :: "log_line \<Rightarrow> state \<Rightarrow> state" where
  "sendToLog l s = (if debugMessages s then s\<lparr>logOut := logOut s @ [l]\<rparr> else s)"

text \<open>
  \<open>withMIDI\<close> runs its argument once on the USB transport and once on the serial
  transport, each if its bit of \<open>midiD\<close> is set.
\<close>

definition withMIDI :: "midi_msg list \<Rightarrow> state \<Rightarrow> state" where
  "withMIDI ms s =
     s\<lparr>usbOut := usbOut s @ (if midiD s AND MIDID_USB \<noteq> 0 then ms else []),
       serialOut := serialOut s @ (if midiD s AND MIDID_SER \<noteq> 0 then ms else [])\<rparr>"

text \<open>C++ \<open>%\<close> truncates towards zero; \<open>positiveMod\<close> is written with it, as in the source.\<close>

definition c_rem :: "int \<Rightarrow> int \<Rightarrow> int" where
  "c_rem n d = n - d * (sgn n * sgn d * (\<bar>n\<bar> div \<bar>d\<bar>))"

definition positiveMod :: "int \<Rightarrow> int \<Rightarrow> int" where
  "positiveMod n d = c_rem (c_rem n d + d) d"

text \<open>C's \<open>round\<close> rounds halfway cases away from zero.\<close>

definition c_round :: "real \<Rightarrow> int" where
  "c_round r = (if 0 \<le> r then \<lfloor>r + 1 / 2\<rfloor> else \<lceil>r - 1 / 2\<rceil>)"

definition setButton :: "byte \<Rightarrow> (buttonDef \<Rightarrow> buttonDef) \<Rightarrow> state \<Rightarrow> state" where
  "setButton x f s = s\<lparr>h := (h s)(x := f (h s x))\<rparr>"

subsection \<open>MPE channel pool\<close>

definition clampMPEChannelRange :: "state \<Rightarrow> state" where
  "clampMPEChannelRange s =
     (let s1 = (if mpeLowestChannel s < 2 then s\<lparr>mpeLowestChannel := 2\<rparr> else s);
          s2 = (if mpeLowestChannel s1 > 16 then s1\<lparr>mpeLowestChannel := 16\<rparr> else s1);
          s3 = (if mpeHighestChannel s2 < 2 then s2\<lparr>mpeHighestChannel := 2\<rparr> else s2);
          s4 = (if mpeHighestChannel s3 > 16 then s3\<lparr>mpeHighestChannel := 16\<rparr> else s3)
      in if mpeLowestChannel s4 > mpeHighestChannel s4
         then s4\<lparr>mpeHighestChannel := mpeLowestChannel s4\<rparr> else s4)"

definition mpePlayableChannelCount :: "state \<Rightarrow> byte" where
  "mpePlayableChannelCount s =
     (if mpeHighestChannel s < mpeLowestChannel s then 0
      else mpeHighestChannel s - mpeLowestChannel s + 1)"

text \<open>
  The loop \<open>for (byte ch = low; ch <= high; ++ch)\<close> of \<open>resetMPEChannelPool\<close>. Its only
  caller runs \<open>clampMPEChannelRange\<close> first, so \<open>high\<close> is at most 16 and the byte
  counter never wraps; the counter is a natural number here.
\<close>

function resetMPEChannelPool_loop :: "nat \<Rightarrow> state \<Rightarrow> state" where
  "resetMPEChannelPool_loop ch s =
     (if ch \<le> unat (mpeHighestChannel s)
      then resetMPEChannelPool_loop (Suc ch)
             (sendToLog (LogAddedToPool (of_nat ch))
                (s\<lparr>mpeAvailableChannels := mpeAvailableChannels s @ [of_nat ch]\<rparr>))
      else s)"
  by pat_completeness auto
termination
  by (relation "measure (\<lambda>(ch, s). Suc (unat (mpeHighestChannel s)) - ch)")
     (auto simp: sendToLog_def)

definition resetMPEChannelPool :: "state \<Rightarrow> state" where
  "resetMPEChannelPool s =
     (let s1 = resetMPEChannelPool_loop (unat (mpeLowestChannel s)) (s\<lparr>mpeAvailableChannels := []\<rparr>)
      in if mpeLowPriorityMode s1
         then s1\<lparr>mpeAvailableChannels := sort (mpeAvailableChannels s1)\<rparr> else s1)"

text \<open>Both branches of \<open>takeMPEChannel\<close> take the front of the vector.\<close>

definition takeMPEChannel :: "state \<Rightarrow> byte \<times> state" where
  "takeMPEChannel s =
     (case mpeAvailableChannels s of
        [] \<Rightarrow> (0, s)
      | ch # rest \<Rightarrow> (ch, s\<lparr>mpeAvailableChannels := rest\<rparr>))"

text \<open>
  \<open>std::lower_bound\<close>: the first position whose element is not less than the value
  (the vector is sorted whenever the low-priority mode filled it).
\<close>

definition lower_bound :: "byte list \<Rightarrow> byte \<Rightarrow> nat" where
  "lower_bound xs v = length (takeWhile (\<lambda>y. y < v) xs)"

definition releaseMPEChannel :: "byte \<Rightarrow> state \<Rightarrow> state" where
  "releaseMPEChannel ch s =
     (if ch < mpeLowestChannel s \<or> ch > mpeHighestChannel s then s
      else
        let s1 = (if mpeLowPriorityMode s
                  then (let insertPos = lower_bound (mpeAvailableChannels s) ch
                        in s\<lparr>mpeAvailableChannels :=
                               take insertPos (mpeAvailableChannels s) @ ch #
                               drop insertPos (mpeAvailableChannels s)\<rparr>)
                  else s\<lparr>mpeAvailableChannels := mpeAvailableChannels s @ [ch]\<rparr>)
        in sendToLog (LogReturnedToPool ch) s1)"

subsection \<open>MIDI set-up\<close>

definition setPitchBendRange :: "byte \<Rightarrow> byte \<Rightarrow> state \<Rightarrow> state" where
  "setPitchBendRange Ch semitones s =
     sendToLog (LogSetPitchBendRange Ch semitones)
       (withMIDI [BeginRpn 0 Ch, SendRpnValue (unat semitones * 2 ^ 7) Ch, EndRpn Ch] s)"

definition setMPEzone :: "byte \<Rightarrow> byte \<Rightarrow> state \<Rightarrow> state" where
  "setMPEzone masterCh sizeOfZone s =
     sendToLog (LogTriedMPEZone masterCh sizeOfZone)
       (withMIDI [BeginRpn 6 masterCh, SendRpnValue (unat sizeOfZone * 2 ^ 7) masterCh,
                  EndRpn masterCh] s)"

text \<open>\<open>resetTuningMIDI\<close>, block by block. First the choice of \<open>MPEpitchBendsNeeded\<close>.\<close>

definition selectPitchBendMode :: "state \<Rightarrow> state" where
  "selectPitchBendMode s =
     (let s0 = s\<lparr>standardMidiMicrotonalActive := False\<rparr>;
          tuningIsStandardSemitone = (tuning_stepSize s0 = 100);
          forceMPE = (mpeUserMode s0 = MPE_MODE_FORCE);
          disableMPE = (mpeUserMode s0 = MPE_MODE_DISABLE);
          mpeOptional = (\<not> forceMPE \<and> \<not> useDynamicJustIntonation s0 \<and> \<not> useJustIntonationBPM s0)
      in if forceMPE then s0\<lparr>MPEpitchBendsNeeded := 255\<rparr>
         else if disableMPE
           then s0\<lparr>standardMidiMicrotonalActive := \<not> tuningIsStandardSemitone,
                   MPEpitchBendsNeeded := 1\<rparr>
         else if mpeOptional \<and> tuningIsStandardSemitone then s0\<lparr>MPEpitchBendsNeeded := 1\<rparr>
         else s0\<lparr>MPEpitchBendsNeeded := 255\<rparr>)"

text \<open>The zone advertisement: \<open>mpeEnabled\<close> is \<open>MPEpitchBendsNeeded > 1\<close>.\<close>

definition advertiseMPEzone :: "state \<Rightarrow> state" where
  "advertiseMPEzone s =
     (if MPEpitchBendsNeeded s > 1
      then (let zoneSize = (if mpeHighestChannel s > 1 then mpeHighestChannel s - 1 else 0)
            in setMPEzone 1 zoneSize s)
      else setMPEzone 1 0 s)"

definition rebuildMPEChannelPool :: "byte \<Rightarrow> state \<Rightarrow> state" where
  "rebuildMPEChannelPool playableChannels s =
     (let s1 = s\<lparr>mpeChannelQueueActive := False, mpeAvailableChannels := []\<rparr>
      in if MPEpitchBendsNeeded s1 > 1
         then (let needsQueue = (MPEpitchBendsNeeded s1 > playableChannels \<or> mpeLowPriorityMode s1);
                   s2 = s1\<lparr>mpeChannelQueueActive := needsQueue\<rparr>
               in if needsQueue then resetMPEChannelPool s2 else s2)
         else s1)"

text \<open>The last loop, for channel \<open>i\<close>.\<close>

definition channelBendRange :: "byte \<Rightarrow> state \<Rightarrow> byte" where
  "channelBendRange i s =
     (if MPEpitchBendsNeeded s > 1 \<and> i \<ge> mpeLowestChannel s \<and> i \<le> mpeHighestChannel s
      then MPEpitchBendSemis s else 2)"

definition resetChannel :: "byte \<Rightarrow> state \<Rightarrow> state" where
  "resetChannel i s =
     setPitchBendRange i (channelBendRange i s) (withMIDI [SendControlChange 123 0 i] s)"

definition resetTuningMIDI :: "state \<Rightarrow> state" where
  "resetTuningMIDI s =
     (let s1 = clampMPEChannelRange (selectPitchBendMode s);
          s2 = (if mpePlayableChannelCount s1 = 0
                then s1\<lparr>mpeLowestChannel := 2, mpeHighestChannel := 2\<rparr> else s1);
          playableChannels = mpePlayableChannelCount s2;
          s3 = rebuildMPEChannelPool playableChannels (advertiseMPEzone s2)
      in fold (\<lambda>i. resetChannel (of_nat i)) [1..<17] s3)"

subsection \<open>Pitch bend and just intonation\<close>

definition pitchBendToFrequencyMultiplier :: "byte \<Rightarrow> 16 word \<Rightarrow> real" where
  "pitchBendToFrequencyMultiplier semis bendValue =
     (if bendValue = 0 then 1
      else 2 powr (((real_of_int (sint bendValue) * real (unat semis)) / 8192) / 12))"

definition combinedPitchBend :: "byte \<Rightarrow> state \<Rightarrow> 16 word" where
  "combinedPitchBend index s =
     (let combined = sint (bend (h s index)) + sint (jiRetune (h s index))
      in if combined > 8191 then 8191
         else if combined < - 8192 then - 8192
         else word_of_int combined)"

text \<open>The ratio table of the source, in its order (duplicates included).\<close>

definition ratios :: "(byte \<times> byte) list" where
  "ratios = [
  (1, 1), (1, 2), (2, 1), (3, 1), (1, 3), (1, 4), (2, 3), (1, 4), (4, 1), (3, 2), (1, 5),
  (5, 1), (5, 2), (1, 6), (3, 4), (5, 2), (4, 3), (6, 1), (2, 5), (5, 3), (1, 7), (7, 1),
  (3, 5), (2, 7), (8, 1), (5, 4), (1, 8), (4, 5), (7, 2), (9, 1), (7, 3), (1, 9), (3, 7),
  (1, 9), (1, 10), (10, 1), (7, 4), (3, 8), (8, 3), (6, 5), (1, 10), (8, 3), (4, 7), (2, 9),
  (9, 2), (5, 6), (11, 1), (7, 5), (1, 11), (5, 7), (5, 8), (3, 10), (4, 9), (3, 10), (2, 11),
  (11, 2), (12, 1), (1, 12), (9, 4), (5, 8), (1, 12), (8, 5), (10, 3), (6, 7), (7, 6), (12, 1),
  (9, 5), (1, 13), (3, 11), (11, 3), (9, 5), (5, 9), (13, 1), (14, 1), (13, 2), (11, 4),
  (1, 14), (2, 13), (8, 7), (7, 8), (4, 11), (9, 7), (11, 5), (7, 9), (5, 11), (13, 3),
  (3, 13), (15, 1), (1, 15), (4, 13), (2, 15), (10, 7), (2, 15), (11, 6), (8, 9), (16, 1),
  (12, 5), (3, 14), (7, 10), (5, 12), (14, 3), (9, 8), (15, 2), (13, 4), (1, 16), (6, 11),
  (17, 1), (1, 17), (5, 13), (13, 5), (4, 15), (17, 2), (9, 10), (2, 17), (9, 10), (12, 7),
  (10, 9), (11, 8), (16, 3), (3, 16), (13, 6), (14, 5), (15, 4), (18, 1), (8, 11), (1, 18),
  (4, 15), (5, 14), (6, 13), (7, 12), (19, 1), (11, 9), (17, 3), (3, 17), (9, 11), (1, 19),
  (5, 16), (20, 1), (8, 13), (10, 11), (20, 1), (19, 2), (1, 20), (11, 10), (2, 19), (13, 8),
  (17, 4), (4, 17), (16, 5), (1, 20), (13, 9), (21, 1), (7, 15), (9, 13), (19, 3), (17, 5),
  (3, 19), (5, 17), (15, 7), (1, 21), (13, 10), (3, 20), (12, 11), (21, 2), (18, 5), (6, 17),
  (15, 8), (3, 20), (20, 3), (19, 4), (5, 18), (14, 9), (9, 14), (8, 15), (2, 21), (1, 22),
  (17, 6), (22, 1), (10, 13), (11, 12), (4, 19), (5, 19), (1, 23), (19, 5), (23, 1), (18, 7),
  (8, 17), (21, 4), (22, 3), (3, 22), (7, 18), (6, 19), (12, 13), (19, 6), (2, 23), (9, 16),
  (17, 8), (24, 1), (13, 12), (1, 24), (23, 2), (4, 21), (16, 9), (9, 17), (1, 25), (5, 21),
  (25, 1), (15, 11), (17, 9), (3, 23), (23, 3), (11, 15), (21, 5), (17, 10), (10, 17), (19, 8),
  (5, 22), (20, 7), (22, 5), (23, 4), (7, 20), (1, 26), (8, 19), (25, 2), (26, 1), (2, 25),
  (4, 23), (5, 23), (9, 19), (1, 27), (13, 15), (3, 25), (15, 13), (23, 5), (19, 9), (27, 1),
  (25, 3), (25, 4), (14, 15), (27, 2), (9, 20), (2, 27), (26, 3), (20, 9), (17, 12), (1, 28),
  (24, 5), (10, 19), (12, 17), (23, 6), (21, 8), (11, 18), (19, 10), (5, 24), (4, 25), (5, 24),
  (3, 26), (18, 11), (28, 1), (8, 21), (6, 23), (15, 14), (1, 29), (29, 1), (23, 8), (24, 7),
  (7, 24), (6, 25), (10, 21), (30, 1), (5, 26), (25, 6), (11, 20), (30, 1), (1, 30), (16, 15),
  (8, 23), (4, 27), (2, 29), (26, 5), (9, 22), (29, 2), (27, 4), (28, 3), (15, 16), (20, 11),
  (18, 13), (22, 9), (21, 10), (13, 18), (12, 19), (19, 12), (3, 28), (17, 15), (15, 17),
  (29, 3), (31, 1), (27, 5), (3, 29), (9, 23), (23, 9), (1, 31), (5, 27), (13, 20), (2, 31),
  (28, 5), (1, 32), (29, 4), (25, 8), (20, 13), (4, 29), (8, 25), (23, 10), (10, 23), (5, 28),
  (31, 2), (32, 1), (33, 1), (3, 31), (1, 33), (5, 29), (15, 19), (9, 25), (31, 3), (19, 15),
  (25, 9), (29, 5), (33, 2), (6, 29), (17, 18), (34, 1), (2, 33), (32, 3), (26, 9), (31, 4),
  (27, 8), (1, 34), (4, 31), (18, 17), (29, 6), (8, 27), (12, 23), (11, 24), (3, 32), (9, 26),
  (23, 12), (24, 11), (5, 31), (31, 5), (35, 1), (1, 35), (1, 36), (30, 7), (24, 13), (18, 19),
  (36, 1), (6, 31), (28, 9), (34, 3), (36, 1), (15, 22), (7, 30), (8, 29), (1, 36), (17, 20),
  (29, 8), (4, 33), (12, 25), (10, 27), (32, 5), (20, 17), (3, 34), (25, 12), (5, 32), (2, 35),
  (33, 4), (22, 15), (9, 28), (13, 24), (27, 10), (35, 2), (19, 18), (31, 6), (9, 29), (35, 3),
  (29, 9), (5, 33), (23, 15), (33, 5), (15, 23), (37, 1), (3, 35), (1, 37), (10, 29), (31, 8),
  (5, 34), (4, 35), (1, 38), (35, 4), (29, 10), (34, 5), (37, 2), (2, 37), (19, 20), (8, 31),
  (20, 19), (38, 1), (31, 9), (39, 1), (37, 3), (3, 37), (9, 31), (1, 39), (38, 3), (11, 30),
  (9, 32), (26, 15), (31, 10), (29, 12), (32, 9), (20, 21), (2, 39), (35, 6), (33, 8), (5, 36),
  (37, 4), (21, 20), (15, 26), (40, 1), (8, 33), (10, 31), (30, 11), (12, 29), (23, 18),
  (17, 24), (36, 5), (40, 1), (1, 40), (4, 37), (24, 17), (39, 2), (6, 35), (18, 23), (3, 38),
  (41, 1), (37, 5), (5, 37), (1, 41), (33, 10), (3, 40), (4, 39), (1, 42), (37, 6), (13, 30),
  (12, 31), (42, 1), (10, 33), (7, 36), (36, 7), (9, 34), (41, 2), (35, 8), (40, 3), (8, 35),
  (5, 38), (2, 41), (39, 4), (38, 5)
  ]"

definition centsToRelativePitchBend :: "byte \<Rightarrow> real \<Rightarrow> 16 word" where
  "centsToRelativePitchBend semis cents =
     word_of_int (c_round (cents * (8192 / (100 * real (unat semis)))))"

definition ratioToCents :: "real \<Rightarrow> real" where
  "ratioToCents ratio = 1200 * (ln ratio / ln 2)"

text \<open>
  The ratio search loop of \<open>justIntonationRetune\<close>. \<open>deviation\<close> starts as \<open>INFINITY\<close>,
  which is \<open>None\<close> here; \<open>preferSmallRatios\<close> is the constant \<open>true\<close>. The result is the
  final \<open>deviation\<close> and \<open>selectedRatio\<close>.
\<close>

fun ratioSearch ::
  "real \<Rightarrow> real \<Rightarrow> real option \<Rightarrow> byte \<times> byte \<Rightarrow> (byte \<times> byte) list
     \<Rightarrow> real option \<times> (byte \<times> byte)" where
  "ratioSearch errorThreshold EDOCents deviation selectedRatio [] = (deviation, selectedRatio)"
| "ratioSearch errorThreshold EDOCents deviation selectedRatio (ratio # rest) =
     (let ratio0 = real (unat (fst ratio));
          ratio1 = real (unat (snd ratio));
          ratioCents = ratioToCents (ratio0 / ratio1)
      in if (case deviation of None \<Rightarrow> True | Some d \<Rightarrow> \<bar>d\<bar> > \<bar>ratioCents - EDOCents\<bar>)
         then (if \<bar>EDOCents - ratioCents\<bar> < errorThreshold
               then (Some (EDOCents - ratioCents), ratio)
               else ratioSearch errorThreshold EDOCents (Some (EDOCents - ratioCents)) ratio rest)
         else ratioSearch errorThreshold EDOCents deviation selectedRatio rest)"

text \<open>
  The block \<open>if (useDynamicJustIntonation && pressedKeyIDs.size() > 1)\<close>: the interval
  searched for is the frequency of the first held key divided by the frequency of key \<open>x\<close>.
\<close>

definition dynamicRatioSearch :: "byte \<Rightarrow> state \<Rightarrow> real option \<times> (byte \<times> byte)" where
  "dynamicRatioSearch x s =
     ratioSearch (tuning_stepSize s / 4)
       (ratioToCents (frequency (h s (pressedKeyIDs s ! 0)) / frequency (h s x)))
       None (0, 0) ratios"

text \<open>The cents offset of the BPM mode for key \<open>k\<close>.\<close>

definition bpmCents :: "byte \<Rightarrow> state \<Rightarrow> real" where
  "bpmCents k s =
     (let rounding = real (unat (justIntonationBPM s)) / 60 * real (unat (justIntonationBPM_Multiplier s))
      in real_of_int (- tuning_spanCtoA s - sint (stepsFromC (h s k))) * tuning_stepSize s
         - ratioToCents (real_of_int (c_round (440 / rounding))
                         / real_of_int (c_round (frequency (h s k) / rounding))))"

definition justIntonationRetune :: "byte \<Rightarrow> state \<Rightarrow> 16 word \<times> state" where
  "justIntonationRetune x s =
     (if \<not> useDynamicJustIntonation s \<and> \<not> useJustIntonationBPM s
      then (0, setButton x (\<lambda>b. b\<lparr>jiRetune := 0, jiFrequencyMultiplier := 1\<rparr>) s)
      else
        let dyn = (useDynamicJustIntonation s \<and> length (pressedKeyIDs s) > 1);
            basePitchOffset = (if useJustIntonationBPM s \<and> dyn
                               then bpmCents (pressedKeyIDs s ! 0) s else 0);
            adj1 = (if useJustIntonationBPM s \<and> \<not> dyn
                    then centsToRelativePitchBend (MPEpitchBendSemis s) (bpmCents x s) else 0);
            pitchAdjustment =
              (if dyn
               then (case fst (dynamicRatioSearch x s) of
                       Some deviation \<Rightarrow>
                         adj1 + centsToRelativePitchBend (MPEpitchBendSemis s) (deviation + basePitchOffset)
                     | None \<Rightarrow> adj1)
               else adj1)
        in (pitchAdjustment,
            setButton x (\<lambda>b. b\<lparr>jiRetune := pitchAdjustment,
                                jiFrequencyMultiplier :=
                                  pitchBendToFrequencyMultiplier (MPEpitchBendSemis s) pitchAdjustment\<rparr>) s))"

subsection \<open>MIDI note on and note off\<close>

text \<open>The first half of \<open>tryMIDInoteOn\<close>: choosing the channel of a silent key.\<close>

definition assignMIDIch :: "byte \<Rightarrow> state \<Rightarrow> state" where
  "assignMIDIch x s =
     (if MPEpitchBendsNeeded s = 1
      then (if standardMidiMicrotonalActive s
            then setButton x (\<lambda>b. b\<lparr>MIDIch := (if mappedMidiChannel b \<noteq> 0 then mappedMidiChannel b
                                                 else defaultMidiChannel s)\<rparr>) s
            else setButton x (\<lambda>b. b\<lparr>MIDIch := defaultMidiChannel s\<rparr>) s)
      else
        let availableChannels = mpePlayableChannelCount s
        in if availableChannels = 0 then sendToLog LogNoMPEChannels s
           else if mpeChannelQueueActive s
           then (let (channel, s1) = takeMPEChannel s
                 in if channel = 0 then sendToLog LogMPEPoolEmpty s1
                    else sendToLog (LogAssignedFromPool channel)
                           (setButton x (\<lambda>b. b\<lparr>MIDIch := channel\<rparr>) s1))
           else setButton x
                  (\<lambda>b. b\<lparr>MIDIch := word_of_int (uint (mpeLowestChannel s)
                             + positiveMod (sint (stepsFromC b)) (uint availableChannels))\<rparr>) s)"

text \<open>The second half: the messages of a key that has a channel.\<close>

definition sendNoteOnMessages :: "byte \<Rightarrow> state \<Rightarrow> state" where
  "sendNoteOnMessages x s =
     (let s1 = s\<lparr>pressedKeyIDs := pressedKeyIDs s @ [x]\<rparr>;
          s2 = snd (justIntonationRetune x s1);
          ch = MIDIch (h s2 x);
          vel = sint (velWheel_curValue s2);
          pitchBendValue = (if MPEpitchBendsNeeded s2 \<noteq> 1 then combinedPitchBend x s2 else 0);
          s3 = (if MPEpitchBendsNeeded s2 \<noteq> 1
                then (let s2a = withMIDI [SendPitchBend (sint pitchBendValue) ch] s2
                      in if extraMPE s2a
                         then withMIDI [SendAfterTouch vel ch, SendControlChange 74 (CC74value s2a) ch] s2a
                         else s2a)
                else s2);
          s4 = withMIDI [SendNoteOn (noteNum (h s3 x)) vel ch] s3
      in sendToLog (LogSentNoteOn (noteNum (h s4 x)) vel ch)
           (sendToLog (LogSentPitchBend (sint pitchBendValue) ch) s4))"

definition tryMIDInoteOn :: "byte \<Rightarrow> state \<Rightarrow> state" where
  "tryMIDInoteOn x s =
     (if noteNum (h s x) \<ge> 128 then s
      else if MIDIch (h s x) \<noteq> 0 then s
      else
        let s1 = assignMIDIch x s
        in if MIDIch (h s1 x) \<noteq> 0 then sendNoteOnMessages x s1 else s1)"

text \<open>
  \<open>pressedKeyIDs.pop_back()\<close> is \<open>butlast\<close>. (On an empty vector \<open>pop_back\<close> is
  undefined in C++; \<open>butlast\<close> leaves the empty list.)
\<close>

definition tryMIDInoteOff :: "byte \<Rightarrow> state \<Rightarrow> state" where
  "tryMIDInoteOff x s =
     (if MIDIch (h s x) \<noteq> 0
      then
        let ch = MIDIch (h s x);
            vel = sint (velWheel_curValue s);
            s1 = withMIDI [SendNoteOff (noteNum (h s x)) vel ch] s;
            s2 = s1\<lparr>pressedKeyIDs := butlast (pressedKeyIDs s1)\<rparr>;
            s3 = setButton x (\<lambda>b. b\<lparr>jiRetune := 0, jiFrequencyMultiplier := 1\<rparr>) s2;
            s4 = sendToLog (LogSentNoteOff (noteNum (h s3 x)) vel ch) s3;
            s5 = (if mpeChannelQueueActive s4 \<and> ch \<ge> mpeLowestChannel s4 \<and> ch \<le> mpeHighestChannel s4
                  then releaseMPEChannel ch
                         (if extraMPE s4
                          then withMIDI [SendAfterTouch 0 ch, SendControlChange 74 (CC74value s4) ch] s4
                          else s4)
                  else s4)
        in setButton x (\<lambda>b. b\<lparr>MIDIch := 0\<rparr>) s5
      else s)"

subsection \<open>Envelope engine\<close>

definition ticksFromMicros :: "32 word \<Rightarrow> 32 word" where
  "ticksFromMicros micros =
     (if micros = 0 then 0
      else (micros + POLL_INTERVAL_IN_MICROSECONDS - 1) div POLL_INTERVAL_IN_MICROSECONDS)"

definition clampIndex :: "byte \<Rightarrow> byte" where
  "clampIndex index =
     (if unat index \<ge> length envelopeTimeMicrosOptions
      then of_nat (length envelopeTimeMicrosOptions - 1) else index)"

definition updateEnvelopeParamsFromSettings :: "state \<Rightarrow> state" where
  "updateEnvelopeParamsFromSettings s =
     (let s1 = s\<lparr>envelopeAttackIndex := clampIndex (envelopeAttackIndex s),
                 envelopeDecayIndex := clampIndex (envelopeDecayIndex s),
                 envelopeReleaseIndex := clampIndex (envelopeReleaseIndex s)\<rparr>;
          attackMicros = envelopeTimeMicrosOptions ! unat (envelopeAttackIndex s1);
          aTicks = ticksFromMicros attackMicros;
          aInc = (if aTicks = 0 then envelopeMaxLevel
                  else max 1 ((envelopeMaxLevel + aTicks - 1) div aTicks));
          sustainByte = min 127 (envelopeSustainLevel s1);
          sLevel = (ucast (((ucast sustainByte :: 32 word) * envelopeMaxLevel) div 127) :: 16 word);
          decayMicros = envelopeTimeMicrosOptions ! unat (envelopeDecayIndex s1);
          dTicks = ticksFromMicros decayMicros;
          dInc = (if dTicks = 0 \<or> ucast sLevel \<ge> envelopeMaxLevel then envelopeMaxLevel
                  else (let difference = envelopeMaxLevel - ucast sLevel
                        in max 1 ((difference + dTicks - 1) div dTicks)));
          releaseMicros = envelopeTimeMicrosOptions ! unat (envelopeReleaseIndex s1)
      in s1\<lparr>envelopeParams :=
              \<lparr>attackTicks = aTicks, decayTicks = dTicks,
               releaseTicks = ticksFromMicros releaseMicros,
               attackIncrement = aInc, decayIncrement = dInc, sustainLevel = sLevel\<rparr>\<rparr>)"

text \<open>
  One iteration of the loop of \<open>poll\<close> for one voice, in two steps. First the pending
  command is exchanged for \<open>None\<close> and applied. \<open>StartAttack\<close> may draw a generation tag
  from the global counter, so the counter is passed through.
\<close>

definition applyCommand :: "EnvelopeParams \<Rightarrow> 32 word \<Rightarrow> voice \<Rightarrow> voice \<times> 32 word" where
  "applyCommand p nextGen v =
     (case command v of
        StartAttack \<Rightarrow>
          let v1 = v\<lparr>command := CmdNone, releaseIncrement := 0, envelopeNeedsFree := False\<rparr>;
              v2 = (if attackTicks p = 0
                    then (if decayTicks p = 0 \<or> ucast (sustainLevel p) \<ge> envelopeMaxLevel
                          then v1\<lparr>stage := Sustain, level := ucast (sustainLevel p)\<rparr>
                          else v1\<lparr>level := envelopeMaxLevel, stage := Decay\<rparr>)
                    else v1\<lparr>stage := Attack, level := 0\<rparr>);
              v3 = (if stage v2 = Decay \<and> decayTicks p = 0
                    then v2\<lparr>stage := Sustain, level := ucast (sustainLevel p)\<rparr> else v2);
              v4 = (if stage v3 = Sustain then v3\<lparr>level := ucast (sustainLevel p)\<rparr> else v3)
          in if voiceGeneration v4 = 0 then (v4\<lparr>voiceGeneration := nextGen\<rparr>, nextGen + 1)
             else (v4, nextGen)
      | StartRelease \<Rightarrow>
          (if releaseTicks p = 0 \<or> level v = 0
           then (v\<lparr>command := CmdNone, level := 0, stage := Idle, increment := 0, counter := 0,
                   envelopeNeedsFree := True\<rparr>, nextGen)
           else (v\<lparr>command := CmdNone, stage := Release,
                   releaseIncrement := max 1 ((level v + releaseTicks p - 1) div releaseTicks p)\<rparr>,
                 nextGen))
      | Reset \<Rightarrow>
          (v\<lparr>command := CmdNone, level := 0, releaseIncrement := 0, stage := Idle,
             increment := 0, counter := 0, channelInUse := False, envelopeNeedsFree := False,
             voiceGeneration := 0\<rparr>, nextGen)
      | CmdNone \<Rightarrow> (v, nextGen))"

text \<open>
  The tail of the iteration for a voice that is not skipped: the test before the
  oscillator step. The sample computed after it goes to the PWM output and is not modelled.
\<close>

definition stepOscillator :: "voice \<Rightarrow> voice" where
  "stepOscillator v =
     (if stage v = Idle \<or> level v = 0 \<or> increment v = 0
      then (if stage v = Idle then v\<lparr>envelopeNeedsFree := True\<rparr> else v)
      else v\<lparr>counter := counter v + increment v\<rparr>)"

definition advanceEnvelope :: "EnvelopeParams \<Rightarrow> voice \<Rightarrow> voice" where
  "advanceEnvelope p v =
     (if increment v = 0 \<and> stage v = Idle then v
      else case stage v of
        Attack \<Rightarrow>
          stepOscillator
            (let nextLevel = level v + attackIncrement p
             in if level v \<ge> envelopeMaxLevel \<or> nextLevel \<ge> envelopeMaxLevel
                then (if decayTicks p = 0 \<or> ucast (sustainLevel p) \<ge> envelopeMaxLevel
                      then v\<lparr>stage := Sustain, level := ucast (sustainLevel p)\<rparr>
                      else v\<lparr>level := envelopeMaxLevel, stage := Decay\<rparr>)
                else v\<lparr>level := nextLevel\<rparr>)
      | Decay \<Rightarrow>
          stepOscillator
            (if decayTicks p = 0 \<or> ucast (sustainLevel p) \<ge> envelopeMaxLevel
             then v\<lparr>stage := Sustain, level := ucast (sustainLevel p)\<rparr>
             else if level v > ucast (sustainLevel p)
             then (let nextLevel = (if level v > decayIncrement p then level v - decayIncrement p else 0)
                   in if nextLevel \<le> ucast (sustainLevel p)
                      then v\<lparr>level := ucast (sustainLevel p), stage := Sustain\<rparr>
                      else v\<lparr>level := nextLevel\<rparr>)
             else v\<lparr>level := ucast (sustainLevel p), stage := Sustain\<rparr>)
      | Sustain \<Rightarrow> stepOscillator (v\<lparr>level := ucast (sustainLevel p)\<rparr>)
      | Release \<Rightarrow>
          stepOscillator
            (if releaseTicks p = 0 \<or> releaseIncrement v = 0 \<or> level v \<le> releaseIncrement v
             then v\<lparr>level := 0, stage := Idle, increment := 0, counter := 0,
                    envelopeNeedsFree := True\<rparr>
             else v\<lparr>level := level v - releaseIncrement v\<rparr>)
      | Idle \<Rightarrow> v\<lparr>level := 0, increment := 0, counter := 0\<rparr>)"

definition pollVoice :: "EnvelopeParams \<Rightarrow> 32 word \<Rightarrow> voice \<Rightarrow> voice \<times> 32 word" where
  "pollVoice p nextGen v =
     (let (v1, nextGen1) = applyCommand p nextGen v in (advanceEnvelope p v1, nextGen1))"

fun pollVoices :: "EnvelopeParams \<Rightarrow> 32 word \<Rightarrow> voice list \<Rightarrow> voice list \<times> 32 word" where
  "pollVoices p nextGen [] = ([], nextGen)"
| "pollVoices p nextGen (v # vs) =
     (let (v1, nextGen1) = pollVoice p nextGen v;
          (vs1, nextGen2) = pollVoices p nextGen1 vs
      in (v1 # vs1, nextGen2))"

text \<open>One audio tick: the voice loop of \<open>poll\<close> over all voices, in index order.\<close>

definition poll :: "state \<Rightarrow> state" where
  "poll s =
     (let (vs, nextGen) = pollVoices (envelopeParams s) (nextVoiceGeneration s) (voices s)
      in s\<lparr>voices := vs, nextVoiceGeneration := nextGen\<rparr>)"

subsection \<open>Synth voice allocator\<close>

definition setVoice :: "nat \<Rightarrow> (voice \<Rightarrow> voice) \<Rightarrow> state \<Rightarrow> state" where
  "setVoice i f s = s\<lparr>voices := (voices s)[i := f (voices s ! i)]\<rparr>"

text \<open>
  \<open>setSynthFreq\<close>, for the oscillator fields kept in the model. The callers pass a channel
  between 1 and \<open>POLYPHONY_LIMIT\<close>.
\<close>

definition setSynthFreq :: "real \<Rightarrow> byte \<Rightarrow> state \<Rightarrow> state" where
  "setSynthFreq freq channel s =
     (if channel = 0 then s
      else
        let c = unat (channel - 1);
            owner = synthChannelOwner (voices s ! c);
            tunedFrequency =
              (if (useDynamicJustIntonation s \<or> useJustIntonationBPM s) \<and> c < POLYPHONY_LIMIT
                  \<and> 0 \<le> sint owner \<and> sint owner < int BTN_COUNT
               then freq * jiFrequencyMultiplier (h s (ucast owner)) else freq);
            f = tunedFrequency * pitchBendFactor s
        in setVoice c (\<lambda>v. v\<lparr>counter := 0,
                               increment := word_of_int (c_round (f * 24 * 0.065536))\<rparr>) s)"

definition beginEnvelopeAttack :: "byte \<Rightarrow> state \<Rightarrow> state" where
  "beginEnvelopeAttack channel s =
     setVoice (unat channel)
       (\<lambda>v. v\<lparr>channelInUse := True, envelopeNeedsFree := False, releaseRetries := 0,
               releaseRetryCountdown := 0, command := StartAttack\<rparr>) s"

definition beginEnvelopeRelease :: "byte \<Rightarrow> state \<Rightarrow> state" where
  "beginEnvelopeRelease channel s =
     (if unat channel \<ge> POLYPHONY_LIMIT then s
      else setVoice (unat channel)
             (\<lambda>v. v\<lparr>releaseRetries := 2, releaseRetryCountdown := 0, command := StartRelease\<rparr>) s)"

definition findNextHeldNote :: "state \<Rightarrow> byte" where
  "findNextHeldNote s =
     (case List.find (\<lambda>j. MIDIch (h s j) \<noteq> 0 \<and> \<not> isCmd (h s j))
             (map (\<lambda>i. word_of_int (positiveMod (uint (arpeggiatingNow s) + int i) (int BTN_COUNT)))
                  [1..<Suc BTN_COUNT]) of
        None \<Rightarrow> UNUSED_NOTE
      | Some j \<Rightarrow> j)"

text \<open>Owner and generation tag of a voice handed to key \<open>x\<close>; the counter is bumped.\<close>

definition stampVoice :: "nat \<Rightarrow> byte \<Rightarrow> state \<Rightarrow> state" where
  "stampVoice i x s =
     (setVoice i (\<lambda>v. v\<lparr>synthChannelOwner := ucast x, voiceGeneration := nextVoiceGeneration s\<rparr>) s)
       \<lparr>nextVoiceGeneration := nextVoiceGeneration s + 1\<rparr>"

definition replaceMonoSynthWith :: "byte \<Rightarrow> state \<Rightarrow> state" where
  "replaceMonoSynthWith x s =
     (if arpeggiatingNow s = x then s
      else
        let s1 = (if arpeggiatingNow s \<noteq> UNUSED_NOTE
                  then setButton (arpeggiatingNow s) (\<lambda>b. b\<lparr>synthCh := 0\<rparr>) s else s);
            s2 = s1\<lparr>arpeggiatingNow := x\<rparr>
        in if x \<noteq> UNUSED_NOTE
           then (let s3 = setButton x (\<lambda>b. b\<lparr>synthCh := 1\<rparr>) s2;
                     s4 = beginEnvelopeAttack 0 (stampVoice 0 x s3)
                 in setSynthFreq (frequency (h s4 x)) 1 s4)
           else beginEnvelopeRelease 0
                  (setVoice 0 (\<lambda>v. v\<lparr>synthChannelOwner := NO_SYNTH_OWNER\<rparr>) s2))"

text \<open>The body of the loop of \<open>processEnvelopeReleases\<close> at index \<open>i\<close>.\<close>

definition processEnvelopeRelease :: "nat \<Rightarrow> state \<Rightarrow> state" where
  "processEnvelopeRelease i s =
     (if envelopeNeedsFree (voices s ! i)
      then
        let owner = synthChannelOwner (voices s ! i);
            s1 = setVoice i (\<lambda>v. v\<lparr>envelopeNeedsFree := False, channelInUse := False,
                                    voiceGeneration := 0, synthChannelOwner := NO_SYNTH_OWNER\<rparr>) s;
            s2 = (if 0 \<le> sint owner \<and> sint owner < int BTN_COUNT
                     \<and> synthCh (h s1 (ucast owner)) = of_nat (i + 1)
                  then setButton (ucast owner) (\<lambda>b. b\<lparr>synthCh := 0\<rparr>) s1 else s1);
            s3 = (if playbackMode s2 = SYNTH_POLY
                  then s2\<lparr>synthChQueue := synthChQueue s2 @ [of_nat (i + 1)]\<rparr> else s2)
        in setVoice i (\<lambda>v. v\<lparr>releaseRetries := 0, releaseRetryCountdown := 0\<rparr>) s3
      else s)"

definition processEnvelopeReleases :: "state \<Rightarrow> state" where
  "processEnvelopeReleases s = fold processEnvelopeRelease [0..<POLYPHONY_LIMIT] s"

text \<open>
  The scan of \<open>stealOldestSynthVoice\<close>: \<open>oldestGeneration\<close> starts at the largest
  \<open>uint32_t\<close>, \<open>oldestIndex\<close> at \<open>-1\<close> (\<open>None\<close>). The result \<open>None\<close> is the return value
  \<open>false\<close>; otherwise the pair is \<open>channelOut\<close> and \<open>previousOwner\<close>.
\<close>

fun stealScan :: "voice list \<Rightarrow> nat \<Rightarrow> 32 word \<times> nat option \<Rightarrow> 32 word \<times> nat option" where
  "stealScan [] i acc = acc"
| "stealScan (v # vs) i (oldestGeneration, oldestIndex) =
     stealScan vs (Suc i)
       (if \<not> channelInUse v then (oldestGeneration, oldestIndex)
        else if synthChannelOwner v = NO_SYNTH_OWNER then (oldestGeneration, oldestIndex)
        else if voiceGeneration v = 0 then (oldestGeneration, oldestIndex)
        else if voiceGeneration v < oldestGeneration then (voiceGeneration v, Some i)
        else (oldestGeneration, oldestIndex))"

definition stealOldestSynthVoice :: "state \<Rightarrow> (byte \<times> 16 word) option" where
  "stealOldestSynthVoice s =
     (case snd (stealScan (voices s) 0 (- 1, None)) of
        None \<Rightarrow> None
      | Some oldestIndex \<Rightarrow>
          Some (of_nat (oldestIndex + 1), synthChannelOwner (voices s ! oldestIndex)))"

text \<open>What both poly branches of \<open>trySynthNoteOn\<close> do once the channel is chosen.\<close>

definition startVoice :: "byte \<Rightarrow> byte \<Rightarrow> state \<Rightarrow> state" where
  "startVoice x channel s =
     (let s1 = setButton x (\<lambda>b. b\<lparr>synthCh := channel\<rparr>) s;
          s2 = stampVoice (unat (channel - 1)) x s1;
          s3 = beginEnvelopeAttack (channel - 1) s2
      in setSynthFreq (frequency (h s3 x)) channel s3)"

definition trySynthNoteOn :: "byte \<Rightarrow> state \<Rightarrow> state" where
  "trySynthNoteOn x s =
     (if playbackMode s = SYNTH_OFF then s
      else if playbackMode s = SYNTH_POLY
      then
        let s1 = processEnvelopeReleases s
        in (case synthChQueue s1 of
              [] \<Rightarrow>
                (case stealOldestSynthVoice s1 of
                   None \<Rightarrow> sendToLog LogSynthAllFiring s1
                 | Some (stolenChannel, previousOwner) \<Rightarrow>
                     let s2 = (if 0 \<le> sint previousOwner \<and> sint previousOwner < int BTN_COUNT
                                  \<and> synthCh (h s1 (ucast previousOwner)) = stolenChannel
                               then setButton (ucast previousOwner) (\<lambda>b. b\<lparr>synthCh := 0\<rparr>) s1
                               else s1)
                     in sendToLog (LogStoleSynthChannel stolenChannel) (startVoice x stolenChannel s2))
            | channel # rest \<Rightarrow>
                sendToLog (LogPoppedSynthQueue channel)
                  (startVoice x channel (s1\<lparr>synthChQueue := rest\<rparr>)))
      else if MIDIch (h s x) \<noteq> 0 then replaceMonoSynthWith x s
      else s)"

text \<open>The fallback loop of \<open>trySynthNoteOff\<close>: the first voice in use whose owner is \<open>x\<close>.\<close>

definition releaseByOwner :: "byte \<Rightarrow> state \<Rightarrow> state" where
  "releaseByOwner x s =
     (case List.find (\<lambda>i. channelInUse (voices s ! i) \<and> synthChannelOwner (voices s ! i) = ucast x)
             [0..<POLYPHONY_LIMIT] of
        None \<Rightarrow> s
      | Some i \<Rightarrow>
          beginEnvelopeRelease (of_nat i)
            (setVoice i (\<lambda>v. v\<lparr>synthChannelOwner := NO_SYNTH_OWNER\<rparr>) s))"

definition trySynthNoteOff :: "byte \<Rightarrow> state \<Rightarrow> state" where
  "trySynthNoteOff x s =
     (if playbackMode s \<noteq> 0 \<and> playbackMode s \<noteq> SYNTH_POLY
      then (if arpeggiatingNow s = x then replaceMonoSynthWith (findNextHeldNote s) s else s)
      else if playbackMode s \<noteq> SYNTH_POLY then s
      else if synthCh (h s x) \<noteq> 0
      then beginEnvelopeRelease (synthCh (h s x) - 1) (setButton x (\<lambda>b. b\<lparr>synthCh := 0\<rparr>) s)
      else releaseByOwner x s)"


subsection \<open>Note dispatcher\<close>

text \<open>
  \<open>readHexes\<close> calls, for a key that is not a command key: on a new press
  \<open>tryMIDInoteOn\<close> then \<open>trySynthNoteOn\<close>, on a release \<open>tryMIDInoteOff\<close> then
  \<open>trySynthNoteOff\<close>.
\<close>

datatype key_event = NewPress byte | Released byte

fun keyEvent :: "state \<Rightarrow> key_event \<Rightarrow> state" where
  "keyEvent s (NewPress x) = trySynthNoteOn x (tryMIDInoteOn x s)"
| "keyEvent s (Released x) = trySynthNoteOff x (tryMIDInoteOff x s)"

text \<open>\<open>n\<close> audio ticks in a row.\<close>

fun ticks :: "nat \<Rightarrow> state \<Rightarrow> state" where
  "ticks 0 s = s"
| "ticks (Suc n) s = ticks n (poll s)"

subsection \<open>Initial values\<close>

text \<open>The initialisers of the global variables.\<close>

definition initialButton :: buttonDef where
  "initialButton =
     \<lparr>isCmd = False, stepsFromC = 0, noteNum = UNUSED_NOTE, bend = 0, MIDIch = 0, synthCh = 0,
      frequency = 0, jiRetune = 0, jiFrequencyMultiplier = 1, mappedMidiChannel = 0\<rparr>"

definition initialVoice :: voice where
  "initialVoice =
     \<lparr>level = 0, releaseIncrement = 0, stage = Idle, command = CmdNone, channelInUse = False,
      envelopeNeedsFree = False, voiceGeneration = 0, synthChannelOwner = 0, increment = 0,
      counter = 0, releaseRetries = 0, releaseRetryCountdown = 0\<rparr>"

definition initialState :: state where
  "initialState =
     \<lparr>debugMessages = True, mpeUserMode = 0, extraMPE = False, standardMidiMicrotonalActive = False,
      mpeLowestChannel = 2, mpeHighestChannel = 16, mpeLowPriorityMode = False,
      CC74value = 0, defaultMidiChannel = 1, justIntonationBPM = 60,
      justIntonationBPM_Multiplier = 1, useJustIntonationBPM = False,
      useDynamicJustIntonation = False, MPEpitchBendSemis = 48, midiD = 3,
      mpeAvailableChannels = [], MPEpitchBendsNeeded = 0, mpeChannelQueueActive = False,
      velWheel_curValue = 96, tuning_stepSize = 100, tuning_spanCtoA = - 9,
      pressedKeyIDs = [], h = (\<lambda>i. initialButton), usbOut = [], serialOut = [], logOut = [],
      playbackMode = SYNTH_OFF,
      envelopeParams = \<lparr>attackTicks = 0, decayTicks = 0, releaseTicks = 0,
                        attackIncrement = envelopeMaxLevel, decayIncrement = envelopeMaxLevel,
                        sustainLevel = 65535\<rparr>,
      voices = replicate POLYPHONY_LIMIT initialVoice, nextVoiceGeneration = 1,
      synthChQueue = [], arpeggiatingNow = UNUSED_NOTE, pitchBendFactor = 1,
      envelopeAttackIndex = 2, envelopeDecayIndex = 3, envelopeSustainLevel = 127,
      envelopeReleaseIndex = 3\<rparr>"

subsection \<open>Properties stated about the model\<close>

text \<open>
  Channel exclusivity: a channel of the configured range is once in the free pool, or
  the channel of one key, and not both.
\<close>

definition channelExclusive :: "state \<Rightarrow> bool" where
  "channelExclusive s =
     (\<forall>ch. mpeLowestChannel s \<le> ch \<and> ch \<le> mpeHighestChannel s \<longrightarrow>
        count_list (mpeAvailableChannels s) ch + card {x. MIDIch (h s x) = ch} = 1)"


text \<open>The messages of the last loop of \<open>resetTuningMIDI\<close> for channel \<open>i\<close>.\<close>

text \<open>The lines that reach the log: all of them with \<open>debugMessages\<close> set, none otherwise.\<close>

definition debugLines :: "state \<Rightarrow> log_line list \<Rightarrow> log_line list" where
  "debugLines s ls = (if debugMessages s then ls else [])"

definition resetMsgs :: "state \<Rightarrow> nat \<Rightarrow> midi_msg list" where
  "resetMsgs s i = [SendControlChange 123 0 (of_nat i), BeginRpn 0 (of_nat i),
      SendRpnValue (unat (channelBendRange (of_nat i) s) * 2 ^ 7) (of_nat i), EndRpn (of_nat i)]"

text \<open>The initial state with MPE forced by the user setting.\<close>

definition mpeForcedState :: state where
  "mpeForcedState = initialState\<lparr>mpeUserMode := MPE_MODE_FORCE\<rparr>"

definition pressed :: "byte \<Rightarrow> state \<Rightarrow> state" where
  "pressed x s = s\<lparr>pressedKeyIDs := pressedKeyIDs s @ [x]\<rparr>"

definition noteOnMidi :: "byte \<Rightarrow> state \<Rightarrow> midi_msg list" where
  "noteOnMidi x s =
     (let s2 = snd (justIntonationRetune x (pressed x s));
          ch = MIDIch (h s x);
          vel = sint (velWheel_curValue s)
      in (if MPEpitchBendsNeeded s \<noteq> 1
          then SendPitchBend (sint (combinedPitchBend x s2)) ch #
               (if extraMPE s then [SendAfterTouch vel ch, SendControlChange 74 (CC74value s) ch] else [])
          else [])
         @ [SendNoteOn (noteNum (h s x)) vel ch])"

definition noteOnLog :: "byte \<Rightarrow> state \<Rightarrow> log_line list" where
  "noteOnLog x s =
     (let s2 = snd (justIntonationRetune x (pressed x s));
          ch = MIDIch (h s x);
          vel = sint (velWheel_curValue s)
      in [LogSentPitchBend (if MPEpitchBendsNeeded s \<noteq> 1 then sint (combinedPitchBend x s2) else 0) ch,
          LogSentNoteOn (noteNum (h s x)) vel ch])"

definition retuned :: "byte \<Rightarrow> state \<Rightarrow> buttonDef" where
  "retuned x s = (h s x)\<lparr>jiRetune := fst (justIntonationRetune x s),
       jiFrequencyMultiplier :=
         pitchBendToFrequencyMultiplier (MPEpitchBendSemis s) (fst (justIntonationRetune x s))\<rparr>"

definition poolAfterRelease :: "byte \<Rightarrow> state \<Rightarrow> byte list" where
  "poolAfterRelease c s =
     (if mpeChannelQueueActive s \<and> mpeLowestChannel s \<le> c \<and> c \<le> mpeHighestChannel s
      then (if mpeLowPriorityMode s
            then take (lower_bound (mpeAvailableChannels s) c) (mpeAvailableChannels s) @ c #
                 drop (lower_bound (mpeAvailableChannels s) c) (mpeAvailableChannels s)
            else mpeAvailableChannels s @ [c])
      else mpeAvailableChannels s)"

text \<open>The initial state in single-channel mode, every key with MIDI note 60.\<close>

definition singleChannelState :: state where
  "singleChannelState =
     initialState\<lparr>MPEpitchBendsNeeded := 1, h := (\<lambda>i. initialButton\<lparr>noteNum := 60\<rparr>)\<rparr>"

text \<open>The MPE channel pool is in use: per-note bend is required and the queue is active.\<close>

definition poolActive :: "state \<Rightarrow> bool" where
  "poolActive s =
     (MPEpitchBendsNeeded s \<noteq> 1 \<and> mpePlayableChannelCount s \<noteq> 0 \<and> mpeChannelQueueActive s)"

text \<open>
  MPE forced, range 2 to 16, every key with MIDI note 60, after \<open>resetTuningMIDI\<close>; and
  the same state after the keys 1 to 15 were pressed.
\<close>

definition mpeKeysState :: state where
  "mpeKeysState = resetTuningMIDI (mpeForcedState\<lparr>h := (\<lambda>i. initialButton\<lparr>noteNum := 60\<rparr>)\<rparr>)"

definition fifteenKeysDown :: state where
  "fifteenKeysDown =
     fold tryMIDInoteOn [1, 2, 3, 4, 5, 6, 7, 8, 9, 10, 11, 12, 13, 14, 15] mpeKeysState"

text \<open>The state \<open>fifteenKeysDown\<close> after "Serial Debug" was switched off in the menu.\<close>

definition quietFifteenKeysDown :: state where
  "quietFifteenKeysDown = fifteenKeysDown\<lparr>debugMessages := False\<rparr>"

text \<open>
  Key 3 is pressed on \<open>mpeKeysState\<close> and, while it is held, "MPE High Ch" is changed
  from 16 to 15 in the menu: the menu writes the variable and runs the hook
  \<open>resetTuningMIDI\<close>.
\<close>

definition heldKeyRebuilt :: state where
  "heldKeyRebuilt = resetTuningMIDI ((tryMIDInoteOn 3 mpeKeysState)\<lparr>mpeHighestChannel := 15\<rparr>)"

text \<open>
  What the synth functions may change: the voices, the generation counter, the free list,
  the mono voice's key, the log, and of the keys only the field \<open>synthCh\<close>.
\<close>

definition synthStep :: "state \<Rightarrow> state \<Rightarrow> bool" where
  "synthStep s t =
     (\<exists>hf l vs g q a.
        t = s\<lparr>h := hf, logOut := logOut s @ l, voices := vs, nextVoiceGeneration := g,
              synthChQueue := q, arpeggiatingNow := a\<rparr>
        \<and> (\<forall>y. (hf y)\<lparr>synthCh := synthCh (h s y)\<rparr> = h s y))"

text \<open>The invariant carried through key events: the pool is active, the range is the clamped
  one, the pool holds channels of the range only, and the channels are exclusive.\<close>

definition poolInv :: "state \<Rightarrow> bool" where
  "poolInv s =
     (poolActive s \<and> 2 \<le> mpeLowestChannel s
      \<and> set (mpeAvailableChannels s) \<subseteq> {mpeLowestChannel s..mpeHighestChannel s}
      \<and> channelExclusive s)"






section \<open>Verified properties\<close>

subsection \<open>Auxiliary facts: the set-up of the MIDI channels\<close>

lemma debugLines_upd [simp]:
  "debugLines (s\<lparr>mpeLowestChannel := lo\<rparr>) = debugLines s"
  "debugLines (s\<lparr>mpeHighestChannel := hi\<rparr>) = debugLines s"
  "debugLines (s\<lparr>standardMidiMicrotonalActive := b\<rparr>) = debugLines s"
  "debugLines (s\<lparr>mpeAvailableChannels := p\<rparr>) = debugLines s"
  "debugLines (s\<lparr>MPEpitchBendsNeeded := n\<rparr>) = debugLines s"
  "debugLines (s\<lparr>mpeChannelQueueActive := b\<rparr>) = debugLines s"
  "debugLines (s\<lparr>pressedKeyIDs := ks\<rparr>) = debugLines s"
  "debugLines (s\<lparr>h := hf\<rparr>) = debugLines s"
  "debugLines (s\<lparr>usbOut := u\<rparr>) = debugLines s"
  "debugLines (s\<lparr>serialOut := u\<rparr>) = debugLines s"
  "debugLines (s\<lparr>logOut := l\<rparr>) = debugLines s"
  "debugLines (s\<lparr>voices := vs\<rparr>) = debugLines s"
  "debugLines (s\<lparr>nextVoiceGeneration := g\<rparr>) = debugLines s"
  "debugLines (s\<lparr>synthChQueue := q\<rparr>) = debugLines s"
  "debugLines (s\<lparr>arpeggiatingNow := a\<rparr>) = debugLines s"
  by (simp_all add: debugLines_def fun_eq_iff)

lemma debugLines_simps [simp]:
  "debugLines s [] = []"
  "debugLines s a @ debugLines s b = debugLines s (a @ b)"
  "l @ debugLines s a @ debugLines s b = l @ debugLines s (a @ b)"
  by (simp_all add: debugLines_def)

lemma sendToLog_alt: "sendToLog l s = s\<lparr>logOut := logOut s @ debugLines s [l]\<rparr>"
  by (simp add: sendToLog_def debugLines_def)

lemmas upd_defs = sendToLog_alt withMIDI_def setButton_def setVoice_def

lemma clamp_alt:
  "clampMPEChannelRange s =
     s\<lparr>mpeLowestChannel := mpeLowestChannel (clampMPEChannelRange s),
       mpeHighestChannel := mpeHighestChannel (clampMPEChannelRange s)\<rparr>"
  by (simp add: clampMPEChannelRange_def Let_def)

lemma clamp_range:
  "2 \<le> mpeLowestChannel (clampMPEChannelRange s)"
  "mpeLowestChannel (clampMPEChannelRange s) \<le> mpeHighestChannel (clampMPEChannelRange s)"
  "mpeHighestChannel (clampMPEChannelRange s) \<le> 16"
  by (auto simp: clampMPEChannelRange_def Let_def not_less)

lemma playable_nonzero:
  fixes lo hi :: byte
  assumes "2 \<le> lo" "lo \<le> hi" "hi \<le> 16"
  shows "hi - lo + 1 \<noteq> 0" "\<not> hi < lo" "hi - lo + 1 < 255" "1 < hi"
  using assms by (unat_arith; simp)+

lemma playable_clamped: "mpePlayableChannelCount (clampMPEChannelRange s) \<noteq> 0"
  "mpePlayableChannelCount (clampMPEChannelRange s) < 255"
  "1 < mpeHighestChannel (clampMPEChannelRange s)"
  using playable_nonzero[OF clamp_range(1)[of s] clamp_range(2)[of s] clamp_range(3)[of s]]
  by (simp_all add: mpePlayableChannelCount_def)

lemma pool_loop_alt:
  "resetMPEChannelPool_loop ch s =
     s\<lparr>mpeAvailableChannels := mpeAvailableChannels s @ map of_nat [ch..<Suc (unat (mpeHighestChannel s))],
       logOut := logOut s @ debugLines s (map (\<lambda>c. LogAddedToPool (of_nat c)) [ch..<Suc (unat (mpeHighestChannel s))])\<rparr>"
proof (induction ch s rule: resetMPEChannelPool_loop.induct)
  case (1 ch s)
  show ?case
  proof (cases "ch \<le> unat (mpeHighestChannel s)")
    case True
    let ?t = "sendToLog (LogAddedToPool (of_nat ch)) (s\<lparr>mpeAvailableChannels := mpeAvailableChannels s @ [of_nat ch]\<rparr>)"
    have "resetMPEChannelPool_loop ch s = resetMPEChannelPool_loop (Suc ch) ?t"
      using True by (subst resetMPEChannelPool_loop.simps) (simp only: if_True)
    also have "\<dots> = ?t\<lparr>mpeAvailableChannels := mpeAvailableChannels ?t @ map of_nat [Suc ch..<Suc (unat (mpeHighestChannel ?t))],
       logOut := logOut ?t @ debugLines ?t (map (\<lambda>c. LogAddedToPool (of_nat c)) [Suc ch..<Suc (unat (mpeHighestChannel ?t))])\<rparr>"
      by (rule 1[OF True])
    also have "\<dots> = s\<lparr>mpeAvailableChannels := mpeAvailableChannels s @ map of_nat [ch..<Suc (unat (mpeHighestChannel s))],
       logOut := logOut s @ debugLines s (map (\<lambda>c. LogAddedToPool (of_nat c)) [ch..<Suc (unat (mpeHighestChannel s))])\<rparr>"
      using True by (simp add: upd_defs upt_conv_Cons del: upt_Suc)
    finally show ?thesis .
  next
    case False
    then show ?thesis by (subst resetMPEChannelPool_loop.simps) simp
  qed
qed

lemma channelBendRange_upd [simp]:
  "channelBendRange i (s\<lparr>usbOut := u\<rparr>) = channelBendRange i s"
  "channelBendRange i (s\<lparr>serialOut := v\<rparr>) = channelBendRange i s"
  "channelBendRange i (s\<lparr>logOut := l\<rparr>) = channelBendRange i s"
  by (simp_all add: channelBendRange_def)

lemma resetMsgs_upd [simp]:
  "resetMsgs (s\<lparr>usbOut := u\<rparr>) = resetMsgs s"
  "resetMsgs (s\<lparr>serialOut := v\<rparr>) = resetMsgs s"
  "resetMsgs (s\<lparr>logOut := l\<rparr>) = resetMsgs s"
  by (simp_all add: resetMsgs_def fun_eq_iff)

lemma resetChannel_alt:
  "resetChannel (of_nat i) s =
     s\<lparr>usbOut := usbOut s @ (if midiD s AND MIDID_USB \<noteq> 0 then resetMsgs s i else []),
       serialOut := serialOut s @ (if midiD s AND MIDID_SER \<noteq> 0 then resetMsgs s i else []),
       logOut := logOut s @ debugLines s [LogSetPitchBendRange (of_nat i) (channelBendRange (of_nat i) s)]\<rparr>"
  by (simp add: resetChannel_def setPitchBendRange_def upd_defs Let_def resetMsgs_def)

lemma resetChannels_alt:
  "fold (\<lambda>i. resetChannel (of_nat i)) is s =
     s\<lparr>usbOut := usbOut s @ (if midiD s AND MIDID_USB \<noteq> 0 then concat (map (resetMsgs s) is) else []),
       serialOut := serialOut s @ (if midiD s AND MIDID_SER \<noteq> 0 then concat (map (resetMsgs s) is) else []),
       logOut := logOut s @ debugLines s (map (\<lambda>i. LogSetPitchBendRange (of_nat i) (channelBendRange (of_nat i) s)) is)\<rparr>"
proof (induction "is" arbitrary: s)
  case Nil
  show ?case by simp
next
  case (Cons i "is")
  let ?F = "\<lambda>i. resetChannel (of_nat i)"
  let ?t = "resetChannel (of_nat i) s"
  have "fold ?F (i # is) s = fold ?F is ?t" by simp
  also have "\<dots> = ?t\<lparr>usbOut := usbOut ?t @ (if midiD ?t AND MIDID_USB \<noteq> 0 then concat (map (resetMsgs ?t) is) else []),
       serialOut := serialOut ?t @ (if midiD ?t AND MIDID_SER \<noteq> 0 then concat (map (resetMsgs ?t) is) else []),
       logOut := logOut ?t @ debugLines ?t (map (\<lambda>i. LogSetPitchBendRange (of_nat i) (channelBendRange (of_nat i) ?t)) is)\<rparr>"
    by (rule Cons.IH)
  also have "\<dots> = s\<lparr>usbOut := usbOut s @ (if midiD s AND MIDID_USB \<noteq> 0 then concat (map (resetMsgs s) (i # is)) else []),
       serialOut := serialOut s @ (if midiD s AND MIDID_SER \<noteq> 0 then concat (map (resetMsgs s) (i # is)) else []),
       logOut := logOut s @ debugLines s (map (\<lambda>i. LogSetPitchBendRange (of_nat i) (channelBendRange (of_nat i) s)) (i # is))\<rparr>"
    by (simp add: resetChannel_alt)
  finally show ?case .
qed

lemma selectMode_alt:
  "selectPitchBendMode s =
     s\<lparr>standardMidiMicrotonalActive := standardMidiMicrotonalActive (selectPitchBendMode s),
       MPEpitchBendsNeeded := MPEpitchBendsNeeded (selectPitchBendMode s)\<rparr>"
  by (simp add: selectPitchBendMode_def Let_def)

lemma selectMode_needed:
  "MPEpitchBendsNeeded (selectPitchBendMode s) = 1 \<or> MPEpitchBendsNeeded (selectPitchBendMode s) = 255"
  by (simp add: selectPitchBendMode_def Let_def)

lemma advertise_alt:
  "1 < MPEpitchBendsNeeded s \<Longrightarrow> 1 < mpeHighestChannel s \<Longrightarrow>
   advertiseMPEzone s =
     s\<lparr>usbOut := usbOut s @ (if midiD s AND MIDID_USB \<noteq> 0
            then [BeginRpn 6 1, SendRpnValue (unat (mpeHighestChannel s - 1) * 2 ^ 7) 1, EndRpn 1] else []),
       serialOut := serialOut s @ (if midiD s AND MIDID_SER \<noteq> 0
            then [BeginRpn 6 1, SendRpnValue (unat (mpeHighestChannel s - 1) * 2 ^ 7) 1, EndRpn 1] else []),
       logOut := logOut s @ debugLines s [LogTriedMPEZone 1 (mpeHighestChannel s - 1)]\<rparr>"
  by (simp add: advertiseMPEzone_def setMPEzone_def upd_defs Let_def)



lemma rebuild_alt:
  assumes "1 < MPEpitchBendsNeeded s" "MPEpitchBendsNeeded s > n"
  shows "rebuildMPEChannelPool n s =
     s\<lparr>mpeAvailableChannels := (if mpeLowPriorityMode s then sort else id)
           (map of_nat [unat (mpeLowestChannel s)..<Suc (unat (mpeHighestChannel s))]),
       mpeChannelQueueActive := True,
       logOut := logOut s @ debugLines s (map (\<lambda>c. LogAddedToPool (of_nat c))
           [unat (mpeLowestChannel s)..<Suc (unat (mpeHighestChannel s))])\<rparr>"
proof -
  let ?s2 = "s\<lparr>mpeAvailableChannels := [], mpeChannelQueueActive := True\<rparr>"
  have "rebuildMPEChannelPool n s = resetMPEChannelPool ?s2"
    using assms by (simp add: rebuildMPEChannelPool_def Let_def)
  also have "\<dots> = s\<lparr>mpeAvailableChannels := (if mpeLowPriorityMode s then sort else id)
           (map of_nat [unat (mpeLowestChannel s)..<Suc (unat (mpeHighestChannel s))]),
       mpeChannelQueueActive := True,
       logOut := logOut s @ debugLines s (map (\<lambda>c. LogAddedToPool (of_nat c))
           [unat (mpeLowestChannel s)..<Suc (unat (mpeHighestChannel s))])\<rparr>"
    unfolding resetMPEChannelPool_def Let_def pool_loop_alt
    by (simp del: upt_Suc)
  finally show ?thesis .
qed

lemma resetTuningMIDI_alt:
  assumes "1 < MPEpitchBendsNeeded (selectPitchBendMode s)"
  shows "resetTuningMIDI s =
    fold (\<lambda>i. resetChannel (of_nat i)) [1..<17]
      (rebuildMPEChannelPool (mpePlayableChannelCount (clampMPEChannelRange (selectPitchBendMode s)))
        (advertiseMPEzone (clampMPEChannelRange (selectPitchBendMode s))))"
  using playable_clamped(1)[of "selectPitchBendMode s"]
  by (simp add: resetTuningMIDI_def Let_def)


lemma clamp_keeps [simp]:
  "MPEpitchBendsNeeded (clampMPEChannelRange s) = MPEpitchBendsNeeded s"
  "debugMessages (clampMPEChannelRange s) = debugMessages s"
  "mpeUserMode (clampMPEChannelRange s) = mpeUserMode s"
  "debugLines (clampMPEChannelRange s) = debugLines s"
  "logOut (clampMPEChannelRange s) = logOut s"
  "usbOut (clampMPEChannelRange s) = usbOut s"
  "serialOut (clampMPEChannelRange s) = serialOut s"
  "midiD (clampMPEChannelRange s) = midiD s"
  "mpeLowPriorityMode (clampMPEChannelRange s) = mpeLowPriorityMode s"
  "h (clampMPEChannelRange s) = h s"
  by (subst clamp_alt, simp)+

lemma selectMode_keeps [simp]:
  "mpeLowestChannel (selectPitchBendMode s) = mpeLowestChannel s"
  "mpeHighestChannel (selectPitchBendMode s) = mpeHighestChannel s"
  "debugMessages (selectPitchBendMode s) = debugMessages s"
  "mpeUserMode (selectPitchBendMode s) = mpeUserMode s"
  "debugLines (selectPitchBendMode s) = debugLines s"
  "logOut (selectPitchBendMode s) = logOut s"
  "usbOut (selectPitchBendMode s) = usbOut s"
  "serialOut (selectPitchBendMode s) = serialOut s"
  "midiD (selectPitchBendMode s) = midiD s"
  "mpeLowPriorityMode (selectPitchBendMode s) = mpeLowPriorityMode s"
  "h (selectPitchBendMode s) = h s"
  by (subst selectMode_alt, simp)+

lemma clamp_select [simp]:
  "mpeLowestChannel (clampMPEChannelRange (selectPitchBendMode s)) = mpeLowestChannel (clampMPEChannelRange s)"
  "mpeHighestChannel (clampMPEChannelRange (selectPitchBendMode s)) = mpeHighestChannel (clampMPEChannelRange s)"
  by (simp_all add: clampMPEChannelRange_def Let_def)

lemma resetTuningMIDI_enabled:
  assumes "1 < MPEpitchBendsNeeded (selectPitchBendMode s)"
  defines "c \<equiv> clampMPEChannelRange (selectPitchBendMode s)"
  defines "zone \<equiv> [BeginRpn 6 1, SendRpnValue (unat (mpeHighestChannel c - 1) * 2 ^ 7) 1, EndRpn 1]"
  defines "r \<equiv> resetTuningMIDI s"
  shows "logOut r = logOut s @ debugLines s (LogTriedMPEZone 1 (mpeHighestChannel c - 1)
            # map (\<lambda>ch. LogAddedToPool (of_nat ch)) [unat (mpeLowestChannel c)..<Suc (unat (mpeHighestChannel c))]
            @ map (\<lambda>i. LogSetPitchBendRange (of_nat i) (channelBendRange (of_nat i) c)) [1..<17])"
    and "usbOut r = usbOut s @ (if midiD s AND MIDID_USB \<noteq> 0 then zone @ concat (map (resetMsgs c) [1..<17]) else [])"
    and "serialOut r = serialOut s @ (if midiD s AND MIDID_SER \<noteq> 0 then zone @ concat (map (resetMsgs c) [1..<17]) else [])"
    and "mpeLowestChannel r = mpeLowestChannel c" and "mpeHighestChannel r = mpeHighestChannel c"
    and "mpeChannelQueueActive r"
    and "mpeAvailableChannels r = (if mpeLowPriorityMode s then sort else id)
           (map of_nat [unat (mpeLowestChannel c)..<Suc (unat (mpeHighestChannel c))])"
    and "h r = h s" and "MPEpitchBendsNeeded r = 255" and "debugMessages r = debugMessages s"
    and "mpeUserMode r = mpeUserMode s" and "mpeLowPriorityMode r = mpeLowPriorityMode s"
proof -
  have n: "MPEpitchBendsNeeded c = 255"
    using assms(1) selectMode_needed[of s] by (auto simp: c_def)
  have e: "1 < MPEpitchBendsNeeded c" by (simp add: n)
  have hi: "1 < mpeHighestChannel c" unfolding c_def by (rule playable_clamped)
  have p: "mpePlayableChannelCount c < 255" unfolding c_def by (rule playable_clamped)
  let ?a = "advertiseMPEzone c"
  have a: "?a = c\<lparr>usbOut := usbOut c @ (if midiD c AND MIDID_USB \<noteq> 0 then zone else []),
       serialOut := serialOut c @ (if midiD c AND MIDID_SER \<noteq> 0 then zone else []),
       logOut := logOut c @ debugLines c [LogTriedMPEZone 1 (mpeHighestChannel c - 1)]\<rparr>"
    unfolding zone_def by (rule advertise_alt[OF e hi])
  have an: "1 < MPEpitchBendsNeeded ?a" "mpePlayableChannelCount c < MPEpitchBendsNeeded ?a"
    using p by (simp_all add: a n)
  have R: "r = fold (\<lambda>i. resetChannel (of_nat i)) [1..<17] (rebuildMPEChannelPool (mpePlayableChannelCount c) ?a)"
    unfolding r_def c_def by (rule resetTuningMIDI_alt[OF assms(1)])
  note eqs = R resetChannels_alt rebuild_alt[OF an]
  have cb: "channelBendRange i (t\<lparr>mpeAvailableChannels := xs\<rparr>) = channelBendRange i t"
    "channelBendRange i (t\<lparr>mpeChannelQueueActive := b\<rparr>) = channelBendRange i t" for i t xs b
    by (simp_all add: channelBendRange_def)
  have cf: "logOut c = logOut s" "usbOut c = usbOut s" "serialOut c = serialOut s"
    "debugLines c = debugLines s" "debugMessages c = debugMessages s" "mpeUserMode c = mpeUserMode s"
    "midiD c = midiD s" "mpeLowPriorityMode c = mpeLowPriorityMode s" "h c = h s"
    by (simp_all add: c_def)
  have rm: "resetMsgs (t\<lparr>mpeAvailableChannels := xs\<rparr>) = resetMsgs t"
    "resetMsgs (t\<lparr>mpeChannelQueueActive := b\<rparr>) = resetMsgs t" for t xs b
    by (simp_all add: resetMsgs_def fun_eq_iff cb)
  show "logOut r = logOut s @ debugLines s (LogTriedMPEZone 1 (mpeHighestChannel c - 1)
            # map (\<lambda>ch. LogAddedToPool (of_nat ch)) [unat (mpeLowestChannel c)..<Suc (unat (mpeHighestChannel c))]
            @ map (\<lambda>i. LogSetPitchBendRange (of_nat i) (channelBendRange (of_nat i) c)) [1..<17])"
    unfolding eqs by (simp add: a cb cf del: upt_Suc)
  show "usbOut r = usbOut s @ (if midiD s AND MIDID_USB \<noteq> 0 then zone @ concat (map (resetMsgs c) [1..<17]) else [])"
    unfolding eqs by (simp add: a rm cf del: upt_Suc)
  show "serialOut r = serialOut s @ (if midiD s AND MIDID_SER \<noteq> 0 then zone @ concat (map (resetMsgs c) [1..<17]) else [])"
    unfolding eqs by (simp add: a rm cf del: upt_Suc)
  show "mpeLowestChannel r = mpeLowestChannel c" unfolding eqs by (simp add: a)
  show "mpeHighestChannel r = mpeHighestChannel c" unfolding eqs by (simp add: a)
  show "mpeChannelQueueActive r" unfolding eqs by (simp add: a)
  show "mpeAvailableChannels r = (if mpeLowPriorityMode s then sort else id)
           (map of_nat [unat (mpeLowestChannel c)..<Suc (unat (mpeHighestChannel c))])"
    unfolding eqs by (simp add: a cf del: upt_Suc)
  show "h r = h s" unfolding eqs by (simp add: a cf)
  show "MPEpitchBendsNeeded r = 255" unfolding eqs by (simp add: a n)
  show "debugMessages r = debugMessages s" unfolding eqs by (simp add: a cf)
  show "mpeUserMode r = mpeUserMode s" unfolding eqs by (simp add: a cf)
  show "mpeLowPriorityMode r = mpeLowPriorityMode s" unfolding eqs by (simp add: a cf)
qed



subsection \<open>Pitch-bend range\<close>

text \<open>
  Claim C6. For every key and every state, the pitch-bend value computed for sending with
  a note-on, \<open>combinedPitchBend\<close> (the stored bend of the key plus its just-intonation
  retune), lies between -8192 and 8191.
\<close>

theorem combinedPitchBend_range:
  "- 8192 \<le> sint (combinedPitchBend x s) \<and> sint (combinedPitchBend x s) \<le> 8191"
proof -
  let ?c = "sint (bend (h s x)) + sint (jiRetune (h s x))"
  show ?thesis
  proof (cases "?c > 8191")
    case True
    then show ?thesis by (simp add: combinedPitchBend_def Let_def)
  next
    case False
    note hi = this
    show ?thesis
    proof (cases "?c < - 8192")
      case True
      then show ?thesis using hi by (simp add: combinedPitchBend_def Let_def)
    next
      case False
      then have "sint (word_of_int ?c :: 16 word) = ?c" using hi
        by (subst sint_sbintrunc') (simp add: signed_take_bit_int_eq_self)
      then show ?thesis
        using hi False by (simp add: combinedPitchBend_def Let_def del: of_int_add)
    qed
  qed
qed

subsection \<open>Instant attack\<close>

text \<open>
  Claim C5. With attack time 0 (index 0), decay time 0 (index 0) and sustain 127 (100 per
  cent), the audio tick that consumes a \<open>StartAttack\<close> command leaves the voice in the
  Sustain stage at the maximum level. This holds for any voice, so for a fresh one.
\<close>

theorem instant_attack_reaches_sustain:
  "stage (fst (pollVoice
       (envelopeParams (updateEnvelopeParamsFromSettings
          (s\<lparr>envelopeAttackIndex := 0, envelopeDecayIndex := 0, envelopeSustainLevel := 127\<rparr>)))
       g (v\<lparr>command := StartAttack\<rparr>))) = Sustain
   \<and> level (fst (pollVoice
       (envelopeParams (updateEnvelopeParamsFromSettings
          (s\<lparr>envelopeAttackIndex := 0, envelopeDecayIndex := 0, envelopeSustainLevel := 127\<rparr>)))
       g (v\<lparr>command := StartAttack\<rparr>))) = envelopeMaxLevel"
  by (simp add: updateEnvelopeParamsFromSettings_def clampIndex_def envelopeTimeMicrosOptions_def
      ticksFromMicros_def envelopeMaxLevel_def pollVoice_def applyCommand_def advanceEnvelope_def
      stepOscillator_def Let_def)

subsection \<open>The advertised MPE zone\<close>

text \<open>
  Claim C8, as amended. When per-note pitch bend is required (the mode selection of
  \<open>resetTuningMIDI\<close> gives \<open>MPEpitchBendsNeeded > 1\<close>), the range is clamped to
  \<open>2 \<le> low \<le> high \<le> 16\<close> and the zone advertised on master channel 1 (the first log
  line, printed if \<open>debugMessages\<close> is set, and the first RPN 6 sequence on every enabled
  transport) has size \<open>high - 1\<close>.
  No other zone is advertised by the call, and \<open>high - 1\<close> is never \<open>high - low\<close>.
\<close>

theorem mpe_zone_size_highest_minus_one:
  assumes "1 < MPEpitchBendsNeeded (selectPitchBendMode s)"
  shows "2 \<le> mpeLowestChannel (resetTuningMIDI s)
     \<and> mpeLowestChannel (resetTuningMIDI s) \<le> mpeHighestChannel (resetTuningMIDI s)
     \<and> mpeHighestChannel (resetTuningMIDI s) \<le> 16
     \<and> (\<exists>rest. logOut (resetTuningMIDI s)
            = logOut s @ debugLines s
                (LogTriedMPEZone 1 (mpeHighestChannel (resetTuningMIDI s) - 1) # rest)
          \<and> (\<forall>m z. LogTriedMPEZone m z \<notin> set rest))
     \<and> (midiD s AND MIDID_USB \<noteq> 0 \<longrightarrow>
          (\<exists>rest. usbOut (resetTuningMIDI s)
             = usbOut s @ [BeginRpn 6 1,
                           SendRpnValue (unat (mpeHighestChannel (resetTuningMIDI s) - 1) * 2 ^ 7) 1,
                           EndRpn 1] @ rest))
     \<and> (midiD s AND MIDID_SER \<noteq> 0 \<longrightarrow>
          (\<exists>rest. serialOut (resetTuningMIDI s)
             = serialOut s @ [BeginRpn 6 1,
                              SendRpnValue (unat (mpeHighestChannel (resetTuningMIDI s) - 1) * 2 ^ 7) 1,
                              EndRpn 1] @ rest))
     \<and> mpeHighestChannel (resetTuningMIDI s) - 1
          \<noteq> mpeHighestChannel (resetTuningMIDI s) - mpeLowestChannel (resetTuningMIDI s)"
proof -
  note e = resetTuningMIDI_enabled[OF assms]
  let ?c = "clampMPEChannelRange (selectPitchBendMode s)"
  have r: "2 \<le> mpeLowestChannel ?c" "mpeLowestChannel ?c \<le> mpeHighestChannel ?c"
    "mpeHighestChannel ?c \<le> 16"
    by (rule clamp_range)+
  have ne: "mpeHighestChannel ?c - 1 \<noteq> mpeHighestChannel ?c - mpeLowestChannel ?c"
    using r(1) by (simp del: clamp_select) unat_arith
  show ?thesis
    unfolding e(4,5)
    apply (intro conjI r ne)
      apply (rule exI, rule conjI, rule e(1), force)
    using e(2) apply simp
    using e(3) apply simp
    done
qed

text \<open>Witness for C8: MPE forced on the initial state, range 2 to 16, zone size 15.\<close>

theorem mpe_zone_size_highest_minus_one_witness:
  "1 < MPEpitchBendsNeeded (selectPitchBendMode mpeForcedState)
   \<and> (\<exists>rest. logOut (resetTuningMIDI mpeForcedState) = LogTriedMPEZone 1 15 # rest
          \<and> (\<forall>m z. LogTriedMPEZone m z \<notin> set rest))
   \<and> (\<exists>rest. usbOut (resetTuningMIDI mpeForcedState)
          = [BeginRpn 6 1, SendRpnValue 1920 1, EndRpn 1] @ rest)"
proof -
  have m: "1 < MPEpitchBendsNeeded (selectPitchBendMode mpeForcedState)"
    by (simp add: selectPitchBendMode_def mpeForcedState_def initialState_def Let_def)
  have c: "mpeHighestChannel (resetTuningMIDI mpeForcedState) = 16"
    using resetTuningMIDI_enabled(5)[OF m]
    by (simp add: clampMPEChannelRange_def mpeForcedState_def initialState_def Let_def)
  have l: "logOut mpeForcedState = []" "usbOut mpeForcedState = []"
    "midiD mpeForcedState AND MIDID_USB \<noteq> 0" "debugLines mpeForcedState ls = ls" for ls
    by (simp_all add: mpeForcedState_def initialState_def MIDID_USB_def debugLines_def)
  show ?thesis
    using mpe_zone_size_highest_minus_one[OF m] m l by (simp add: c)
qed

text \<open>
  Counterexample to C8 as stated: with the range 2 to 16 the advertised zone size is 15,
  and no zone of size \<open>high - low = 14\<close> is advertised.
\<close>

theorem mpe_zone_size_counterexample:
  "1 < MPEpitchBendsNeeded (selectPitchBendMode mpeForcedState)
   \<and> mpeLowestChannel (resetTuningMIDI mpeForcedState) = 2
   \<and> mpeHighestChannel (resetTuningMIDI mpeForcedState) = 16
   \<and> LogTriedMPEZone 1 15 \<in> set (logOut (resetTuningMIDI mpeForcedState))
   \<and> LogTriedMPEZone 1 (16 - 2) \<notin> set (logOut (resetTuningMIDI mpeForcedState))"
proof -
  have m: "1 < MPEpitchBendsNeeded (selectPitchBendMode mpeForcedState)"
    by (simp add: selectPitchBendMode_def mpeForcedState_def initialState_def Let_def)
  have c: "mpeLowestChannel (clampMPEChannelRange mpeForcedState) = 2"
    "mpeHighestChannel (clampMPEChannelRange mpeForcedState) = 16"
    by (simp_all add: clampMPEChannelRange_def mpeForcedState_def initialState_def Let_def)
  have l: "logOut mpeForcedState = []" "debugLines mpeForcedState ls = ls" for ls
    by (simp_all add: mpeForcedState_def initialState_def debugLines_def)
  note e = resetTuningMIDI_enabled[OF m]
  show ?thesis
    using m by (auto simp: e c l)
qed

subsection \<open>Auxiliary facts: MIDI note on and note off\<close>

lemma ji_alt: "snd (justIntonationRetune x s) = s\<lparr>h := (h s)(x := retuned x s)\<rparr>"
  by (simp add: justIntonationRetune_def retuned_def Let_def setButton_def
      pitchBendToFrequencyMultiplier_def)

lemma sendNoteOnMessages_alt:
  "sendNoteOnMessages x s =
     s\<lparr>pressedKeyIDs := pressedKeyIDs s @ [x],
       h := (h s)(x := retuned x (pressed x s)),
       usbOut := usbOut s @ (if midiD s AND MIDID_USB \<noteq> 0 then noteOnMidi x s else []),
       serialOut := serialOut s @ (if midiD s AND MIDID_SER \<noteq> 0 then noteOnMidi x s else []),
       logOut := logOut s @ debugLines s (noteOnLog x s)\<rparr>"
  unfolding sendNoteOnMessages_def Let_def ji_alt pressed_def[symmetric]
  by (simp add: upd_defs noteOnMidi_def noteOnLog_def Let_def ji_alt pressed_def retuned_def)

lemma assign_pool_empty:
  assumes "MPEpitchBendsNeeded s \<noteq> 1" "mpePlayableChannelCount s \<noteq> 0" "mpeChannelQueueActive s"
    "mpeAvailableChannels s = []"
  shows "assignMIDIch x s = s\<lparr>logOut := logOut s @ debugLines s [LogMPEPoolEmpty]\<rparr>"
  using assms by (simp add: assignMIDIch_def takeMPEChannel_def Let_def upd_defs)

lemma assign_pool_take:
  assumes "MPEpitchBendsNeeded s \<noteq> 1" "mpePlayableChannelCount s \<noteq> 0" "mpeChannelQueueActive s"
    "mpeAvailableChannels s = ch # rest" "ch \<noteq> 0"
  shows "assignMIDIch x s =
     s\<lparr>mpeAvailableChannels := rest, h := (h s)(x := (h s x)\<lparr>MIDIch := ch\<rparr>),
       logOut := logOut s @ debugLines s [LogAssignedFromPool ch]\<rparr>"
  using assms by (simp add: assignMIDIch_def takeMPEChannel_def Let_def upd_defs)

lemma noteOn_pool_empty:
  assumes "MPEpitchBendsNeeded s \<noteq> 1" "mpePlayableChannelCount s \<noteq> 0" "mpeChannelQueueActive s"
    "mpeAvailableChannels s = []" "MIDIch (h s x) = 0" "noteNum (h s x) < 128"
  shows "tryMIDInoteOn x s = s\<lparr>logOut := logOut s @ debugLines s [LogMPEPoolEmpty]\<rparr>"
  using assms(5,6) by (simp add: tryMIDInoteOn_def Let_def assign_pool_empty[OF assms(1-4)] not_le)

lemma noteOn_pool_take:
  assumes "MPEpitchBendsNeeded s \<noteq> 1" "mpePlayableChannelCount s \<noteq> 0" "mpeChannelQueueActive s"
    "mpeAvailableChannels s = ch # rest" "ch \<noteq> 0" "MIDIch (h s x) = 0" "noteNum (h s x) < 128"
  shows "\<exists>B u v l. tryMIDInoteOn x s =
     s\<lparr>mpeAvailableChannels := rest, pressedKeyIDs := pressedKeyIDs s @ [x],
       h := (h s)(x := B), usbOut := usbOut s @ u, serialOut := serialOut s @ v,
       logOut := logOut s @ l\<rparr>
     \<and> MIDIch B = ch \<and> noteNum B = noteNum (h s x) \<and> synthCh B = synthCh (h s x)
     \<and> isCmd B = isCmd (h s x) \<and> frequency B = frequency (h s x)
     \<and> SendNoteOn (noteNum (h s x)) (sint (velWheel_curValue s)) ch \<in> set (noteOnMidi x (assignMIDIch x s))
     \<and> u = (if midiD s AND MIDID_USB \<noteq> 0 then noteOnMidi x (assignMIDIch x s) else [])"
proof -
  let ?a = "assignMIDIch x s"
  note a = assign_pool_take[OF assms(1-5), of x]
  have t: "tryMIDInoteOn x s = sendNoteOnMessages x ?a"
    using assms(5,6,7) by (simp add: tryMIDInoteOn_def Let_def not_le) (simp add: a)
  show ?thesis
    apply (rule exI[of _ "retuned x (pressed x ?a)"])
    apply (rule exI[of _ "if midiD s AND MIDID_USB \<noteq> 0 then noteOnMidi x ?a else []"])
    apply (rule exI[of _ "if midiD s AND MIDID_SER \<noteq> 0 then noteOnMidi x ?a else []"])
    apply (rule exI[of _ "debugLines s (LogAssignedFromPool ch # noteOnLog x ?a)"])
    unfolding t sendNoteOnMessages_alt
    apply (intro conjI)
           apply (simp add: a)
          apply (simp_all add: retuned_def pressed_def a noteOnMidi_def Let_def)
    done
qed

lemma release_alt:
  assumes "mpeLowestChannel s \<le> c" "c \<le> mpeHighestChannel s"
  shows "releaseMPEChannel c s =
    s\<lparr>mpeAvailableChannels :=
         (if mpeLowPriorityMode s
            then take (lower_bound (mpeAvailableChannels s) c) (mpeAvailableChannels s) @ c #
                 drop (lower_bound (mpeAvailableChannels s) c) (mpeAvailableChannels s)
            else mpeAvailableChannels s @ [c]),
       logOut := logOut s @ debugLines s [LogReturnedToPool c]\<rparr>"
proof -
  have "\<not> (c < mpeLowestChannel s \<or> mpeHighestChannel s < c)"
    using assms by (simp add: not_less)
  then show ?thesis
    unfolding releaseMPEChannel_def Let_def sendToLog_alt by simp
qed

lemma noteOff_alt:
  assumes "MIDIch (h s x) \<noteq> 0"
  shows "\<exists>u v l. tryMIDInoteOff x s =
     s\<lparr>mpeAvailableChannels := poolAfterRelease (MIDIch (h s x)) s,
       pressedKeyIDs := butlast (pressedKeyIDs s),
       h := (h s)(x := (h s x)\<lparr>MIDIch := 0, jiRetune := 0, jiFrequencyMultiplier := 1\<rparr>),
       usbOut := usbOut s @ u, serialOut := serialOut s @ v, logOut := logOut s @ l\<rparr>"
proof -
  let ?c = "MIDIch (h s x)" and ?vel = "sint (velWheel_curValue s)"
  define s4 where "s4 = sendToLog (LogSentNoteOff (noteNum (h s x)) ?vel ?c)
     (setButton x (\<lambda>b. b\<lparr>jiRetune := 0, jiFrequencyMultiplier := 1\<rparr>)
       ((withMIDI [SendNoteOff (noteNum (h s x)) ?vel ?c] s)\<lparr>pressedKeyIDs := butlast (pressedKeyIDs s)\<rparr>))"
  have s4: "s4 = s\<lparr>pressedKeyIDs := butlast (pressedKeyIDs s),
       h := (h s)(x := (h s x)\<lparr>jiRetune := 0, jiFrequencyMultiplier := 1\<rparr>),
       usbOut := usbOut s @ (if midiD s AND MIDID_USB \<noteq> 0 then [SendNoteOff (noteNum (h s x)) ?vel ?c] else []),
       serialOut := serialOut s @ (if midiD s AND MIDID_SER \<noteq> 0 then [SendNoteOff (noteNum (h s x)) ?vel ?c] else []),
       logOut := logOut s @ debugLines s [LogSentNoteOff (noteNum (h s x)) ?vel ?c]\<rparr>"
    unfolding s4_def upd_defs by simp
  define s5 where "s5 = (if mpeChannelQueueActive s4 \<and> ?c \<ge> mpeLowestChannel s4 \<and> ?c \<le> mpeHighestChannel s4
                  then releaseMPEChannel ?c
                         (if extraMPE s4
                          then withMIDI [SendAfterTouch 0 ?c, SendControlChange 74 (CC74value s4) ?c] s4
                          else s4)
                  else s4)"
  have off: "tryMIDInoteOff x s = setButton x (\<lambda>b. b\<lparr>MIDIch := 0\<rparr>) s5"
    using assms unfolding tryMIDInoteOff_def Let_def s5_def s4_def
    by (simp add: upd_defs)
  show ?thesis
  proof (cases "mpeChannelQueueActive s \<and> mpeLowestChannel s \<le> ?c \<and> ?c \<le> mpeHighestChannel s")
    case True
    let ?e = "if extraMPE s then [SendAfterTouch 0 ?c, SendControlChange 74 (CC74value s) ?c] else []"
    let ?w = "(if extraMPE s4
                          then withMIDI [SendAfterTouch 0 ?c, SendControlChange 74 (CC74value s4) ?c] s4
                          else s4)"
    have w: "?w = s4\<lparr>usbOut := usbOut s4 @ (if midiD s AND MIDID_USB \<noteq> 0 then ?e else []),
                     serialOut := serialOut s4 @ (if midiD s AND MIDID_SER \<noteq> 0 then ?e else [])\<rparr>"
      by (simp add: withMIDI_def s4)
    have r: "mpeLowestChannel ?w \<le> ?c" "?c \<le> mpeHighestChannel ?w"
      using True by (simp_all add: s4 withMIDI_def)
    have f4: "mpeChannelQueueActive s4 = mpeChannelQueueActive s"
      "mpeLowestChannel s4 = mpeLowestChannel s" "mpeHighestChannel s4 = mpeHighestChannel s"
      by (simp_all add: s4)
    have "mpeChannelQueueActive s4 \<and> ?c \<ge> mpeLowestChannel s4 \<and> ?c \<le> mpeHighestChannel s4"
      unfolding f4 by (rule True)
    then have "s5 = releaseMPEChannel ?c ?w"
      unfolding s5_def by (simp only: if_True simp_thms)
    also have "\<dots> = ?w\<lparr>mpeAvailableChannels := poolAfterRelease ?c s,
       logOut := logOut ?w @ debugLines ?w [LogReturnedToPool ?c]\<rparr>"
      unfolding release_alt[OF r] using True by (simp add: poolAfterRelease_def s4 withMIDI_def)
    finally have s5: "s5 = ?w\<lparr>mpeAvailableChannels := poolAfterRelease ?c s,
       logOut := logOut ?w @ debugLines ?w [LogReturnedToPool ?c]\<rparr>" .
    show ?thesis
      apply (rule exI[of _ "(if midiD s AND MIDID_USB \<noteq> 0 then [SendNoteOff (noteNum (h s x)) ?vel ?c] else []) @ (if midiD s AND MIDID_USB \<noteq> 0 then ?e else [])"])
      apply (rule exI[of _ "(if midiD s AND MIDID_SER \<noteq> 0 then [SendNoteOff (noteNum (h s x)) ?vel ?c] else []) @ (if midiD s AND MIDID_SER \<noteq> 0 then ?e else [])"])
      apply (rule exI[of _ "debugLines s [LogSentNoteOff (noteNum (h s x)) ?vel ?c, LogReturnedToPool ?c]"])
      unfolding off s5 w
      apply (rule state.equality; (simp add: s4 setButton_def)?)
      apply (rule arg_cong[where f="fun_upd (h s) x"])
      apply (rule buttonDef.equality; simp)
      done
  next
    case False
    have f4: "mpeChannelQueueActive s4 = mpeChannelQueueActive s"
      "mpeLowestChannel s4 = mpeLowestChannel s" "mpeHighestChannel s4 = mpeHighestChannel s"
      by (simp_all add: s4)
    have "\<not> (mpeChannelQueueActive s4 \<and> ?c \<ge> mpeLowestChannel s4 \<and> ?c \<le> mpeHighestChannel s4)"
      unfolding f4 by (rule False)
    then have s5: "s5 = s4" unfolding s5_def by (simp only: if_False simp_thms)
    have p: "poolAfterRelease ?c s = mpeAvailableChannels s"
      by (simp only: poolAfterRelease_def False if_False)
    show ?thesis
      apply (rule exI[of _ "(if midiD s AND MIDID_USB \<noteq> 0 then [SendNoteOff (noteNum (h s x)) ?vel ?c] else [])"])
      apply (rule exI[of _ "(if midiD s AND MIDID_SER \<noteq> 0 then [SendNoteOff (noteNum (h s x)) ?vel ?c] else [])"])
      apply (rule exI[of _ "debugLines s [LogSentNoteOff (noteNum (h s x)) ?vel ?c]"])
      unfolding off s5 p
      apply (rule state.equality; (simp add: s4 setButton_def)?)
      apply (rule arg_cong[where f="fun_upd (h s) x"])
      apply (rule buttonDef.equality; simp)
      done
  qed
qed

lemma assign_general:
  "\<exists>P c l. assignMIDIch x s =
      s\<lparr>mpeAvailableChannels := P, h := (h s)(x := (h s x)\<lparr>MIDIch := c\<rparr>), logOut := logOut s @ l\<rparr>"
proof (cases "MPEpitchBendsNeeded s = 1")
  case True
  show ?thesis
    apply (rule exI[of _ "mpeAvailableChannels s"])
    apply (rule exI[of _ "if standardMidiMicrotonalActive s \<and> mappedMidiChannel (h s x) \<noteq> 0
                          then mappedMidiChannel (h s x) else defaultMidiChannel s"])
    apply (rule exI[of _ "[]"])
    using True apply (simp add: assignMIDIch_def setButton_def)
    done
next
  case False
  note ne = this
  show ?thesis
  proof (cases "mpePlayableChannelCount s = 0")
    case True
    show ?thesis
      apply (rule exI[of _ "mpeAvailableChannels s"])
      apply (rule exI[of _ "MIDIch (h s x)"])
      apply (rule exI[of _ "debugLines s [LogNoMPEChannels]"])
      using True ne apply (simp add: assignMIDIch_def sendToLog_alt Let_def)
      done
  next
    case False
    note pl = this
    show ?thesis
    proof (cases "mpeChannelQueueActive s")
      case False
      show ?thesis
        apply (rule exI[of _ "mpeAvailableChannels s"])
        apply (rule exI[of _ "word_of_int (uint (mpeLowestChannel s)
                             + positiveMod (sint (stepsFromC (h s x))) (uint (mpePlayableChannelCount s)))"])
        apply (rule exI[of _ "[]"])
        using False ne pl apply (simp add: assignMIDIch_def setButton_def Let_def)
        done
    next
      case True
      show ?thesis
      proof (cases "mpeAvailableChannels s")
        case Nil
        show ?thesis
          apply (rule exI[of _ "mpeAvailableChannels s"])
          apply (rule exI[of _ "MIDIch (h s x)"])
          apply (rule exI[of _ "debugLines s [LogMPEPoolEmpty]"])
          unfolding assign_pool_empty[OF ne pl True Nil] apply simp
          done
      next
        case (Cons ch rest)
        show ?thesis
        proof (cases "ch = 0")
          case False
          show ?thesis
            apply (rule exI[of _ "rest"])
            apply (rule exI[of _ "ch"])
            apply (rule exI[of _ "debugLines s [LogAssignedFromPool ch]"])
            unfolding assign_pool_take[OF ne pl True Cons False] apply simp
            done
        next
          case z: True
          show ?thesis
            apply (rule exI[of _ "rest"])
            apply (rule exI[of _ "MIDIch (h s x)"])
            apply (rule exI[of _ "debugLines s [LogMPEPoolEmpty]"])
            using ne pl True Cons z
            apply (simp add: assignMIDIch_def takeMPEChannel_def sendToLog_alt Let_def)
            done
        qed
      qed
    qed
  qed
qed

lemma noteOn_general:
  "\<exists>P B u v l. tryMIDInoteOn x s =
      s\<lparr>mpeAvailableChannels := P,
        pressedKeyIDs := pressedKeyIDs s @ (if MIDIch (h s x) = 0 \<and> MIDIch B \<noteq> 0 then [x] else []),
        h := (h s)(x := B), usbOut := usbOut s @ u, serialOut := serialOut s @ v,
        logOut := logOut s @ l\<rparr>
    \<and> noteNum B = noteNum (h s x) \<and> synthCh B = synthCh (h s x) \<and> isCmd B = isCmd (h s x)
    \<and> frequency B = frequency (h s x) \<and> (MIDIch (h s x) \<noteq> 0 \<longrightarrow> B = h s x)"
proof (cases "noteNum (h s x) \<ge> 128 \<or> MIDIch (h s x) \<noteq> 0")
  case True
  then have t: "tryMIDInoteOn x s = s" by (auto simp: tryMIDInoteOn_def)
  show ?thesis
    apply (rule exI[of _ "mpeAvailableChannels s"])
    apply (rule exI[of _ "h s x"])
    apply (rule exI[of _ "[]"])
    apply (rule exI[of _ "[]"])
    apply (rule exI[of _ "[]"])
    unfolding t by simp
next
  case False
  then have n: "\<not> noteNum (h s x) \<ge> 128" and z: "MIDIch (h s x) = 0" by auto
  obtain P c l where a: "assignMIDIch x s =
      s\<lparr>mpeAvailableChannels := P, h := (h s)(x := (h s x)\<lparr>MIDIch := c\<rparr>), logOut := logOut s @ l\<rparr>"
    using assign_general by blast
  let ?a = "assignMIDIch x s"
  have ax: "MIDIch (h ?a x) = c" by (simp add: a)
  have t: "tryMIDInoteOn x s = (if c \<noteq> 0 then sendNoteOnMessages x ?a else ?a)"
    using n z ax by (simp add: tryMIDInoteOn_def Let_def)
  show ?thesis
  proof (cases "c = 0")
    case True
    then have t': "tryMIDInoteOn x s = ?a" using t by simp
    show ?thesis
      apply (rule exI[of _ P])
      apply (rule exI[of _ "(h s x)\<lparr>MIDIch := c\<rparr>"])
      apply (rule exI[of _ "[]"])
      apply (rule exI[of _ "[]"])
      apply (rule exI[of _ l])
      unfolding t' using True z
      apply (intro conjI)
           apply (rule state.equality; simp add: a)
          apply simp_all
      done
  next
    case False
    then have t': "tryMIDInoteOn x s = sendNoteOnMessages x ?a" using t by simp
    have B: "MIDIch (retuned x (pressed x ?a)) = c" "noteNum (retuned x (pressed x ?a)) = noteNum (h s x)"
      "synthCh (retuned x (pressed x ?a)) = synthCh (h s x)" "isCmd (retuned x (pressed x ?a)) = isCmd (h s x)"
      "frequency (retuned x (pressed x ?a)) = frequency (h s x)"
      by (simp_all add: retuned_def pressed_def a)
    show ?thesis
      apply (rule exI[of _ P])
      apply (rule exI[of _ "retuned x (pressed x ?a)"])
      apply (rule exI[of _ "if midiD s AND MIDID_USB \<noteq> 0 then noteOnMidi x ?a else []"])
      apply (rule exI[of _ "if midiD s AND MIDID_SER \<noteq> 0 then noteOnMidi x ?a else []"])
      apply (rule exI[of _ "l @ debugLines s (noteOnLog x ?a)"])
      unfolding t' sendNoteOnMessages_alt B using False z
      apply (intro conjI)
           apply (rule state.equality; simp add: a)
          apply simp_all
      done
  qed
qed

lemma noteOn_frame:
  shows "MPEpitchBendsNeeded (tryMIDInoteOn x s) = MPEpitchBendsNeeded s"
    and "standardMidiMicrotonalActive (tryMIDInoteOn x s) = standardMidiMicrotonalActive s"
    and "defaultMidiChannel (tryMIDInoteOn x s) = defaultMidiChannel s"
    and "mpeLowestChannel (tryMIDInoteOn x s) = mpeLowestChannel s"
    and "mpeHighestChannel (tryMIDInoteOn x s) = mpeHighestChannel s"
    and "mpeLowPriorityMode (tryMIDInoteOn x s) = mpeLowPriorityMode s"
    and "mpeChannelQueueActive (tryMIDInoteOn x s) = mpeChannelQueueActive s"
    and "playbackMode (tryMIDInoteOn x s) = playbackMode s"
    and "envelopeParams (tryMIDInoteOn x s) = envelopeParams s"
    and "voices (tryMIDInoteOn x s) = voices s"
    and "nextVoiceGeneration (tryMIDInoteOn x s) = nextVoiceGeneration s"
    and "synthChQueue (tryMIDInoteOn x s) = synthChQueue s"
    and "arpeggiatingNow (tryMIDInoteOn x s) = arpeggiatingNow s"
    and "y \<noteq> x \<Longrightarrow> h (tryMIDInoteOn x s) y = h s y"
    and "synthCh (h (tryMIDInoteOn x s) y) = synthCh (h s y)"
    and "noteNum (h (tryMIDInoteOn x s) y) = noteNum (h s y)"
    and "frequency (h (tryMIDInoteOn x s) y) = frequency (h s y)"
    and "MIDIch (h s x) \<noteq> 0 \<Longrightarrow> h (tryMIDInoteOn x s) = h s"
    and "pressedKeyIDs (tryMIDInoteOn x s) =
           pressedKeyIDs s @ (if MIDIch (h s x) = 0 \<and> MIDIch (h (tryMIDInoteOn x s) x) \<noteq> 0 then [x] else [])"
proof -
  obtain P B u v l where e: "tryMIDInoteOn x s =
      s\<lparr>mpeAvailableChannels := P,
        pressedKeyIDs := pressedKeyIDs s @ (if MIDIch (h s x) = 0 \<and> MIDIch B \<noteq> 0 then [x] else []),
        h := (h s)(x := B), usbOut := usbOut s @ u, serialOut := serialOut s @ v,
        logOut := logOut s @ l\<rparr>"
    and b: "noteNum B = noteNum (h s x)" "synthCh B = synthCh (h s x)"
      "frequency B = frequency (h s x)" "MIDIch (h s x) \<noteq> 0 \<longrightarrow> B = h s x"
    using noteOn_general[of x s] by blast
  show "MPEpitchBendsNeeded (tryMIDInoteOn x s) = MPEpitchBendsNeeded s"
    and "standardMidiMicrotonalActive (tryMIDInoteOn x s) = standardMidiMicrotonalActive s"
    and "defaultMidiChannel (tryMIDInoteOn x s) = defaultMidiChannel s"
    and "mpeLowestChannel (tryMIDInoteOn x s) = mpeLowestChannel s"
    and "mpeHighestChannel (tryMIDInoteOn x s) = mpeHighestChannel s"
    and "mpeLowPriorityMode (tryMIDInoteOn x s) = mpeLowPriorityMode s"
    and "mpeChannelQueueActive (tryMIDInoteOn x s) = mpeChannelQueueActive s"
    and "playbackMode (tryMIDInoteOn x s) = playbackMode s"
    and "envelopeParams (tryMIDInoteOn x s) = envelopeParams s"
    and "voices (tryMIDInoteOn x s) = voices s"
    and "nextVoiceGeneration (tryMIDInoteOn x s) = nextVoiceGeneration s"
    and "synthChQueue (tryMIDInoteOn x s) = synthChQueue s"
    and "arpeggiatingNow (tryMIDInoteOn x s) = arpeggiatingNow s"
    by (simp_all add: e)
  show "y \<noteq> x \<Longrightarrow> h (tryMIDInoteOn x s) y = h s y" by (simp add: e)
  show "synthCh (h (tryMIDInoteOn x s) y) = synthCh (h s y)" using b by (simp add: e)
  show "noteNum (h (tryMIDInoteOn x s) y) = noteNum (h s y)" using b by (simp add: e)
  show "frequency (h (tryMIDInoteOn x s) y) = frequency (h s y)" using b by (simp add: e)
  show "MIDIch (h s x) \<noteq> 0 \<Longrightarrow> h (tryMIDInoteOn x s) = h s" using b by (simp add: e)
  show "pressedKeyIDs (tryMIDInoteOn x s) =
           pressedKeyIDs s @ (if MIDIch (h s x) = 0 \<and> MIDIch (h (tryMIDInoteOn x s) x) \<noteq> 0 then [x] else [])"
    by (simp add: e)
qed

lemma noteOff_frame_conj:
  "MPEpitchBendsNeeded (tryMIDInoteOff x s) = MPEpitchBendsNeeded s
     \<and> standardMidiMicrotonalActive (tryMIDInoteOff x s) = standardMidiMicrotonalActive s
     \<and> defaultMidiChannel (tryMIDInoteOff x s) = defaultMidiChannel s
     \<and> mpeLowestChannel (tryMIDInoteOff x s) = mpeLowestChannel s
     \<and> mpeHighestChannel (tryMIDInoteOff x s) = mpeHighestChannel s
     \<and> mpeLowPriorityMode (tryMIDInoteOff x s) = mpeLowPriorityMode s
     \<and> mpeChannelQueueActive (tryMIDInoteOff x s) = mpeChannelQueueActive s
     \<and> playbackMode (tryMIDInoteOff x s) = playbackMode s
     \<and> envelopeParams (tryMIDInoteOff x s) = envelopeParams s
     \<and> voices (tryMIDInoteOff x s) = voices s
     \<and> nextVoiceGeneration (tryMIDInoteOff x s) = nextVoiceGeneration s
     \<and> synthChQueue (tryMIDInoteOff x s) = synthChQueue s
     \<and> arpeggiatingNow (tryMIDInoteOff x s) = arpeggiatingNow s
     \<and> (\<forall>y. y \<noteq> x \<longrightarrow> h (tryMIDInoteOff x s) y = h s y)
     \<and> (\<forall>y. synthCh (h (tryMIDInoteOff x s) y) = synthCh (h s y))
     \<and> (\<forall>y. noteNum (h (tryMIDInoteOff x s) y) = noteNum (h s y))
     \<and> MIDIch (h (tryMIDInoteOff x s) x) = 0
     \<and> pressedKeyIDs (tryMIDInoteOff x s) = (if MIDIch (h s x) \<noteq> 0 then butlast (pressedKeyIDs s) else pressedKeyIDs s)
     \<and> mpeAvailableChannels (tryMIDInoteOff x s) = (if MIDIch (h s x) \<noteq> 0 then poolAfterRelease (MIDIch (h s x)) s else mpeAvailableChannels s)"
proof (cases "MIDIch (h s x) = 0")
  case True
  then have e: "tryMIDInoteOff x s = s" by (simp add: tryMIDInoteOff_def)
  show ?thesis unfolding e using True by simp
next
  case False
  obtain u v l where e: "tryMIDInoteOff x s =
     s\<lparr>mpeAvailableChannels := poolAfterRelease (MIDIch (h s x)) s,
       pressedKeyIDs := butlast (pressedKeyIDs s),
       h := (h s)(x := (h s x)\<lparr>MIDIch := 0, jiRetune := 0, jiFrequencyMultiplier := 1\<rparr>),
       usbOut := usbOut s @ u, serialOut := serialOut s @ v, logOut := logOut s @ l\<rparr>"
    using noteOff_alt[OF False] by blast
  show ?thesis unfolding e using False by simp
qed

lemma noteOff_frame:
  shows "MPEpitchBendsNeeded (tryMIDInoteOff x s) = MPEpitchBendsNeeded s"
    and "standardMidiMicrotonalActive (tryMIDInoteOff x s) = standardMidiMicrotonalActive s"
    and "defaultMidiChannel (tryMIDInoteOff x s) = defaultMidiChannel s"
    and "mpeLowestChannel (tryMIDInoteOff x s) = mpeLowestChannel s"
    and "mpeHighestChannel (tryMIDInoteOff x s) = mpeHighestChannel s"
    and "mpeLowPriorityMode (tryMIDInoteOff x s) = mpeLowPriorityMode s"
    and "mpeChannelQueueActive (tryMIDInoteOff x s) = mpeChannelQueueActive s"
    and "playbackMode (tryMIDInoteOff x s) = playbackMode s"
    and "envelopeParams (tryMIDInoteOff x s) = envelopeParams s"
    and "voices (tryMIDInoteOff x s) = voices s"
    and "nextVoiceGeneration (tryMIDInoteOff x s) = nextVoiceGeneration s"
    and "synthChQueue (tryMIDInoteOff x s) = synthChQueue s"
    and "arpeggiatingNow (tryMIDInoteOff x s) = arpeggiatingNow s"
    and "(\<forall>y. y \<noteq> x \<longrightarrow> h (tryMIDInoteOff x s) y = h s y)"
    and "(\<forall>y. synthCh (h (tryMIDInoteOff x s) y) = synthCh (h s y))"
    and "(\<forall>y. noteNum (h (tryMIDInoteOff x s) y) = noteNum (h s y))"
    and "MIDIch (h (tryMIDInoteOff x s) x) = 0"
    and "pressedKeyIDs (tryMIDInoteOff x s) = (if MIDIch (h s x) \<noteq> 0 then butlast (pressedKeyIDs s) else pressedKeyIDs s)"
    and "mpeAvailableChannels (tryMIDInoteOff x s) = (if MIDIch (h s x) \<noteq> 0 then poolAfterRelease (MIDIch (h s x)) s else mpeAvailableChannels s)"
  using noteOff_frame_conj[of x s] by blast+

lemma debugMessages_kept:
  "debugMessages (tryMIDInoteOn x s) = debugMessages s"
  "mpeUserMode (tryMIDInoteOn x s) = mpeUserMode s"
  "debugMessages (tryMIDInoteOff x s) = debugMessages s"
proof -
  obtain P B u v l where e: "tryMIDInoteOn x s =
      s\<lparr>mpeAvailableChannels := P,
        pressedKeyIDs := pressedKeyIDs s @ (if MIDIch (h s x) = 0 \<and> MIDIch B \<noteq> 0 then [x] else []),
        h := (h s)(x := B), usbOut := usbOut s @ u, serialOut := serialOut s @ v,
        logOut := logOut s @ l\<rparr>"
    using noteOn_general[of x s] by blast
  show "debugMessages (tryMIDInoteOn x s) = debugMessages s" by (simp add: e)
  show "mpeUserMode (tryMIDInoteOn x s) = mpeUserMode s" by (simp add: e)
  show "debugMessages (tryMIDInoteOff x s) = debugMessages s"
  proof (cases "MIDIch (h s x) = 0")
    case True
    then show ?thesis by (simp add: tryMIDInoteOff_def)
  next
    case False
    obtain u v l where e: "tryMIDInoteOff x s =
       s\<lparr>mpeAvailableChannels := poolAfterRelease (MIDIch (h s x)) s,
         pressedKeyIDs := butlast (pressedKeyIDs s),
         h := (h s)(x := (h s x)\<lparr>MIDIch := 0, jiRetune := 0, jiFrequencyMultiplier := 1\<rparr>),
         usbOut := usbOut s @ u, serialOut := serialOut s @ v, logOut := logOut s @ l\<rparr>"
      using noteOff_alt[OF False] by blast
    show ?thesis by (simp add: e)
  qed
qed

lemma noteOn_single:
  assumes "MPEpitchBendsNeeded s = 1" "\<not> standardMidiMicrotonalActive s"
    "defaultMidiChannel s \<noteq> 0" "MIDIch (h s x) = 0" "noteNum (h s x) < 128"
  shows "MIDIch (h (tryMIDInoteOn x s) x) = defaultMidiChannel s"
proof -
  let ?a = "assignMIDIch x s"
  have a: "?a = s\<lparr>h := (h s)(x := (h s x)\<lparr>MIDIch := defaultMidiChannel s\<rparr>)\<rparr>"
    using assms(1,2) by (simp add: assignMIDIch_def setButton_def)
  have "tryMIDInoteOn x s = sendNoteOnMessages x ?a"
    using assms(3,4,5) by (simp add: tryMIDInoteOn_def Let_def not_le) (simp add: a)
  then show ?thesis
    by (simp add: sendNoteOnMessages_alt retuned_def pressed_def a)
qed

subsection \<open>The held-keys stack\<close>

text \<open>
  Claim C10. \<open>tryMIDInoteOff\<close> removes the last element of \<open>pressedKeyIDs\<close>, whichever
  key is released. For two silent keys \<open>A\<close> and \<open>B\<close> pressed in that order, each getting a
  channel, releasing \<open>A\<close> first leaves the stack with the entry of \<open>A\<close> (no longer held)
  and without \<open>B\<close> (still held).
\<close>

theorem release_pops_last_pressed_key:
  assumes "A \<noteq> B" "MIDIch (h s A) = 0" "MIDIch (h s B) = 0"
    and "MIDIch (h (tryMIDInoteOn A s) A) \<noteq> 0"
    and "MIDIch (h (tryMIDInoteOn B (tryMIDInoteOn A s)) B) \<noteq> 0"
  shows "pressedKeyIDs (tryMIDInoteOn B (tryMIDInoteOn A s)) = pressedKeyIDs s @ [A, B]
     \<and> pressedKeyIDs (tryMIDInoteOff A (tryMIDInoteOn B (tryMIDInoteOn A s))) = pressedKeyIDs s @ [A]
     \<and> MIDIch (h (tryMIDInoteOff A (tryMIDInoteOn B (tryMIDInoteOn A s))) A) = 0
     \<and> MIDIch (h (tryMIDInoteOff A (tryMIDInoteOn B (tryMIDInoteOn A s))) B) \<noteq> 0
     \<and> (\<forall>t x. MIDIch (h t x) \<noteq> 0 \<longrightarrow>
            pressedKeyIDs (tryMIDInoteOff x t) = butlast (pressedKeyIDs t))"
proof -
  let ?s1 = "tryMIDInoteOn A s"
  let ?s2 = "tryMIDInoteOn B ?s1"
  let ?s3 = "tryMIDInoteOff A ?s2"
  have p1: "pressedKeyIDs ?s1 = pressedKeyIDs s @ [A]"
    using assms(2,4) by (simp add: noteOn_frame(19))
  have b1: "MIDIch (h ?s1 B) = 0"
    using assms(1,3) by (simp add: noteOn_frame(14))
  have p2: "pressedKeyIDs ?s2 = pressedKeyIDs s @ [A, B]"
    using b1 assms(5) p1 by (simp add: noteOn_frame(19)[of B ?s1])
  have a2: "MIDIch (h ?s2 A) \<noteq> 0"
    using assms(1,4) by (simp add: noteOn_frame(14))
  have p3: "pressedKeyIDs ?s3 = pressedKeyIDs s @ [A]"
    using a2 p2 by (simp add: noteOff_frame(18) butlast_append)
  have a3: "MIDIch (h ?s3 A) = 0" by (rule noteOff_frame(17))
  have b3: "MIDIch (h ?s3 B) \<noteq> 0"
    using assms(1,5) noteOff_frame(14)[of A ?s2] by auto
  have g: "\<forall>t x. MIDIch (h t x) \<noteq> 0 \<longrightarrow>
            pressedKeyIDs (tryMIDInoteOff x t) = butlast (pressedKeyIDs t)"
    by (simp add: noteOff_frame(18))
  show ?thesis using p2 p3 a3 b3 g by blast
qed

lemma single_fields:
  "MPEpitchBendsNeeded singleChannelState = 1" "\<not> standardMidiMicrotonalActive singleChannelState"
  "defaultMidiChannel singleChannelState = 1" "MIDIch (h singleChannelState x) = 0"
  "noteNum (h singleChannelState x) = 60" "pressedKeyIDs singleChannelState = []"
  by (simp_all add: singleChannelState_def initialState_def initialButton_def)

text \<open>
  Witness for C10: single-channel mode, keys 3 and 5 pressed, key 3 released: the stack
  is \<open>[3]\<close> while key 3 is silent and key 5 sounds.
\<close>

theorem release_pops_last_pressed_key_witness:
  "(3::byte) \<noteq> 5
   \<and> MIDIch (h singleChannelState 3) = 0 \<and> MIDIch (h singleChannelState 5) = 0
   \<and> MIDIch (h (tryMIDInoteOn 3 singleChannelState) 3) = 1
   \<and> MIDIch (h (tryMIDInoteOn 5 (tryMIDInoteOn 3 singleChannelState)) 5) = 1
   \<and> pressedKeyIDs (tryMIDInoteOn 5 (tryMIDInoteOn 3 singleChannelState)) = [3, 5]
   \<and> pressedKeyIDs (tryMIDInoteOff 3 (tryMIDInoteOn 5 (tryMIDInoteOn 3 singleChannelState))) = [3]
   \<and> MIDIch (h (tryMIDInoteOff 3 (tryMIDInoteOn 5 (tryMIDInoteOn 3 singleChannelState))) 3) = 0
   \<and> MIDIch (h (tryMIDInoteOff 3 (tryMIDInoteOn 5 (tryMIDInoteOn 3 singleChannelState))) 5) \<noteq> 0"
proof -
  let ?s = singleChannelState
  let ?s1 = "tryMIDInoteOn 3 ?s"
  have ne: "(3::byte) \<noteq> 5" by simp
  have a: "MIDIch (h ?s1 3) = 1"
    using noteOn_single[of ?s 3] by (simp add: single_fields)
  have b0: "MIDIch (h ?s1 5) = 0" "noteNum (h ?s1 5) = 60"
    by (simp_all add: noteOn_frame(14,16) single_fields)
  have b: "MIDIch (h (tryMIDInoteOn 5 ?s1) 5) = 1"
    using noteOn_single[of ?s1 5] b0 by (simp add: noteOn_frame single_fields)
  have h4: "MIDIch (h ?s1 3) \<noteq> 0" using a by simp
  have h5: "MIDIch (h (tryMIDInoteOn 5 ?s1) 5) \<noteq> 0" using b by simp
  show ?thesis
    using release_pops_last_pressed_key[OF ne single_fields(4) single_fields(4) h4 h5] a b
    by (simp add: single_fields)
qed

subsection \<open>Auxiliary facts: the channel pool under key presses\<close>

lemma poolActive_noteOn [simp]: "poolActive (tryMIDInoteOn x s) = poolActive s"
  by (simp add: poolActive_def mpePlayableChannelCount_def noteOn_frame)

lemma poolActive_noteOff [simp]: "poolActive (tryMIDInoteOff x s) = poolActive s"
  by (simp add: poolActive_def mpePlayableChannelCount_def noteOff_frame)

lemma noteOn_take_fields:
  assumes "poolActive s" "mpeAvailableChannels s = ch # rest" "ch \<noteq> 0"
    "MIDIch (h s x) = 0" "noteNum (h s x) < 128"
  shows "mpeAvailableChannels (tryMIDInoteOn x s) = rest"
    and "MIDIch (h (tryMIDInoteOn x s) x) = ch"
proof -
  have c: "MPEpitchBendsNeeded s \<noteq> 1" "mpePlayableChannelCount s \<noteq> 0" "mpeChannelQueueActive s"
    using assms(1) by (simp_all add: poolActive_def)
  obtain B u v l where e: "tryMIDInoteOn x s =
     s\<lparr>mpeAvailableChannels := rest, pressedKeyIDs := pressedKeyIDs s @ [x],
       h := (h s)(x := B), usbOut := usbOut s @ u, serialOut := serialOut s @ v,
       logOut := logOut s @ l\<rparr>" and b: "MIDIch B = ch"
    using noteOn_pool_take[OF c assms(2-5)] by blast
  show "mpeAvailableChannels (tryMIDInoteOn x s) = rest" by (simp add: e)
  show "MIDIch (h (tryMIDInoteOn x s) x) = ch" by (simp add: e b)
qed

lemma presses_take:
  assumes "poolActive s" "distinct keys"
    "\<forall>x\<in>set keys. MIDIch (h s x) = 0 \<and> noteNum (h s x) < 128"
    "mpeAvailableChannels s = cs @ rest" "length cs = length keys" "0 \<notin> set cs"
  shows "mpeAvailableChannels (fold tryMIDInoteOn keys s) = rest
     \<and> poolActive (fold tryMIDInoteOn keys s)
     \<and> map (\<lambda>x. MIDIch (h (fold tryMIDInoteOn keys s) x)) keys = cs
     \<and> (\<forall>y. y \<notin> set keys \<longrightarrow> h (fold tryMIDInoteOn keys s) y = h s y)"
  using assms
proof (induction keys arbitrary: s cs)
  case Nil
  then show ?case by simp
next
  case (Cons k ks)
  obtain c cs' where cs: "cs = c # cs'" using Cons.prems(5) by (cases cs) auto
  let ?s1 = "tryMIDInoteOn k s"
  have k: "MIDIch (h s k) = 0" "noteNum (h s k) < 128" using Cons.prems(3) by auto
  have c0: "c \<noteq> 0" using Cons.prems(6) cs by auto
  have pool: "mpeAvailableChannels s = c # (cs' @ rest)" using Cons.prems(4) cs by simp
  note f = noteOn_take_fields[OF Cons.prems(1) pool c0 k]
  have other: "\<And>y. y \<noteq> k \<Longrightarrow> h ?s1 y = h s y" by (rule noteOn_frame(14))
  have p1: "poolActive ?s1" using Cons.prems(1) by simp
  have d: "distinct ks" "k \<notin> set ks" using Cons.prems(2) by auto
  have silent: "\<forall>x\<in>set ks. MIDIch (h ?s1 x) = 0 \<and> noteNum (h ?s1 x) < 128"
  proof
    fix x assume x: "x \<in> set ks"
    then have "x \<noteq> k" using d(2) by auto
    then have "h ?s1 x = h s x" by (rule other)
    then show "MIDIch (h ?s1 x) = 0 \<and> noteNum (h ?s1 x) < 128"
      using Cons.prems(3) x by simp
  qed
  have len: "length cs' = length ks" using Cons.prems(5) cs by simp
  have z: "0 \<notin> set cs'" using Cons.prems(6) cs by simp
  note IH = Cons.IH[OF p1 d(1) silent f(1) len z]
  have kk: "MIDIch (h (fold tryMIDInoteOn ks ?s1) k) = c"
    using IH d(2) f(2) by simp
  show ?case
    using IH kk cs other by auto
qed

subsection \<open>An empty pool drops the note\<close>

text \<open>
  Claim C4, as amended. When the pool is active and empty, a note-on of a silent key \<open>x\<close>
  with a playable note drops the note: no key loses or gets a channel, the key \<open>x\<close> stays
  without channel, nothing is sent on either transport (so no Note On), and the held-keys
  stack is unchanged. The only possible change is the log: the line "MPE pool was empty" is
  printed if \<open>debugMessages\<close> is set, and nothing is printed otherwise.
\<close>

theorem empty_pool_drops_note:
  assumes "poolActive s" "mpeAvailableChannels s = []" "MIDIch (h s x) = 0" "noteNum (h s x) < 128"
  shows "tryMIDInoteOn x s
           = s\<lparr>logOut := logOut s @ (if debugMessages s then [LogMPEPoolEmpty] else [])\<rparr>
     \<and> h (tryMIDInoteOn x s) = h s
     \<and> MIDIch (h (tryMIDInoteOn x s) x) = 0
     \<and> usbOut (tryMIDInoteOn x s) = usbOut s
     \<and> serialOut (tryMIDInoteOn x s) = serialOut s
     \<and> mpeAvailableChannels (tryMIDInoteOn x s) = []
     \<and> pressedKeyIDs (tryMIDInoteOn x s) = pressedKeyIDs s"
proof -
  have c: "MPEpitchBendsNeeded s \<noteq> 1" "mpePlayableChannelCount s \<noteq> 0" "mpeChannelQueueActive s"
    using assms(1) by (simp_all add: poolActive_def)
  have e: "tryMIDInoteOn x s
             = s\<lparr>logOut := logOut s @ (if debugMessages s then [LogMPEPoolEmpty] else [])\<rparr>"
    using noteOn_pool_empty[OF c assms(2,3,4)] by (simp only: debugLines_def)
  show ?thesis unfolding e using assms(2,3) by simp
qed

lemma mpeKeysState_fields:
  "mpeAvailableChannels mpeKeysState = [2, 3, 4, 5, 6, 7, 8, 9, 10, 11, 12, 13, 14, 15, 16]"
  "poolActive mpeKeysState" "h mpeKeysState = (\<lambda>i. initialButton\<lparr>noteNum := 60\<rparr>)"
  "mpeLowestChannel mpeKeysState = 2" "mpeHighestChannel mpeKeysState = 16"
proof -
  let ?s = "mpeForcedState\<lparr>h := (\<lambda>i. initialButton\<lparr>noteNum := 60\<rparr>)\<rparr>"
  have m: "1 < MPEpitchBendsNeeded (selectPitchBendMode ?s)"
    by (simp add: selectPitchBendMode_def mpeForcedState_def initialState_def Let_def)
  have c: "mpeLowestChannel (clampMPEChannelRange ?s) = 2"
    "mpeHighestChannel (clampMPEChannelRange ?s) = 16"
    by (simp_all add: clampMPEChannelRange_def mpeForcedState_def initialState_def Let_def)
  have lp: "\<not> mpeLowPriorityMode ?s" by (simp add: mpeForcedState_def initialState_def)
  note e = resetTuningMIDI_enabled[OF m]
  show "mpeAvailableChannels mpeKeysState = [2, 3, 4, 5, 6, 7, 8, 9, 10, 11, 12, 13, 14, 15, 16]"
    unfolding mpeKeysState_def e(7) using lp by (simp add: c upt_rec)
  show lo: "mpeLowestChannel mpeKeysState = 2" unfolding mpeKeysState_def e(4) by (simp add: c)
  show hi: "mpeHighestChannel mpeKeysState = 16" unfolding mpeKeysState_def e(5) by (simp add: c)
  show "poolActive mpeKeysState"
    unfolding poolActive_def mpePlayableChannelCount_def lo hi
    unfolding mpeKeysState_def using e(6) by (simp add: e(9))
  show "h mpeKeysState = (\<lambda>i. initialButton\<lparr>noteNum := 60\<rparr>)"
    unfolding mpeKeysState_def e(8) by simp
qed

lemma fifteenKeysDown_fields:
  "mpeAvailableChannels fifteenKeysDown = []" "poolActive fifteenKeysDown"
  "map (\<lambda>x. MIDIch (h fifteenKeysDown x)) [1, 2, 3, 4, 5, 6, 7, 8, 9, 10, 11, 12, 13, 14, 15]
     = [2, 3, 4, 5, 6, 7, 8, 9, 10, 11, 12, 13, 14, 15, 16]"
  "h fifteenKeysDown 16 = initialButton\<lparr>noteNum := 60\<rparr>"
proof -
  let ?keys = "[1, 2, 3, 4, 5, 6, 7, 8, 9, 10, 11, 12, 13, 14, 15] :: byte list"
  let ?cs = "[2, 3, 4, 5, 6, 7, 8, 9, 10, 11, 12, 13, 14, 15, 16] :: byte list"
  have d: "distinct ?keys" by simp
  have sil: "\<forall>x\<in>set ?keys. MIDIch (h mpeKeysState x) = 0 \<and> noteNum (h mpeKeysState x) < 128"
    by (simp add: mpeKeysState_fields(3) initialButton_def)
  have pool: "mpeAvailableChannels mpeKeysState = ?cs @ []" by (simp add: mpeKeysState_fields(1))
  have len: "length ?cs = length ?keys" by simp
  have z: "0 \<notin> set ?cs" by simp
  note p = presses_take[OF mpeKeysState_fields(2) d sil pool len z, folded fifteenKeysDown_def]
  show "mpeAvailableChannels fifteenKeysDown = []" using p by blast
  show "poolActive fifteenKeysDown" using p by blast
  show "map (\<lambda>x. MIDIch (h fifteenKeysDown x)) ?keys = ?cs" using p by blast
  have "(16::byte) \<notin> set ?keys" by simp
  then have "h fifteenKeysDown 16 = h mpeKeysState 16" using p by blast
  then show "h fifteenKeysDown 16 = initialButton\<lparr>noteNum := 60\<rparr>"
    by (simp add: mpeKeysState_fields(3))
qed

lemma fifteenKeysDown_debug: "debugMessages fifteenKeysDown"
proof -
  have f: "debugMessages (fold tryMIDInoteOn keys s) = debugMessages s" for keys s
    by (induction keys arbitrary: s) (simp_all add: debugMessages_kept)
  have m: "1 < MPEpitchBendsNeeded (selectPitchBendMode (mpeForcedState\<lparr>h := (\<lambda>i. initialButton\<lparr>noteNum := 60\<rparr>)\<rparr>))"
    by (simp add: selectPitchBendMode_def mpeForcedState_def initialState_def Let_def)
  show ?thesis
    unfolding fifteenKeysDown_def f mpeKeysState_def resetTuningMIDI_enabled(10)[OF m]
    by (simp add: mpeForcedState_def initialState_def)
qed

text \<open>
  Witness for C4, the scenario of the claim: MPE enabled with range 2 to 16, the keys 1 to
  15 hold the channels 2 to 16, the pool is empty, \<open>debugMessages\<close> is set; the 16th press
  (key 16) gets no channel, sends nothing and prints the line.
\<close>

theorem empty_pool_drops_note_witness:
  "poolActive fifteenKeysDown \<and> mpeAvailableChannels fifteenKeysDown = []
   \<and> MIDIch (h fifteenKeysDown 16) = 0 \<and> noteNum (h fifteenKeysDown 16) < 128
   \<and> map (\<lambda>x. MIDIch (h fifteenKeysDown x)) [1, 2, 3, 4, 5, 6, 7, 8, 9, 10, 11, 12, 13, 14, 15]
       = [2, 3, 4, 5, 6, 7, 8, 9, 10, 11, 12, 13, 14, 15, 16]
   \<and> tryMIDInoteOn 16 fifteenKeysDown
       = fifteenKeysDown\<lparr>logOut := logOut fifteenKeysDown @ [LogMPEPoolEmpty]\<rparr>
   \<and> MIDIch (h (tryMIDInoteOn 16 fifteenKeysDown) 16) = 0
   \<and> usbOut (tryMIDInoteOn 16 fifteenKeysDown) = usbOut fifteenKeysDown
   \<and> serialOut (tryMIDInoteOn 16 fifteenKeysDown) = serialOut fifteenKeysDown"
proof -
  have a: "MIDIch (h fifteenKeysDown 16) = 0" "noteNum (h fifteenKeysDown 16) < 128"
    by (simp_all add: fifteenKeysDown_fields(4) initialButton_def)
  have "tryMIDInoteOn 16 fifteenKeysDown
       = fifteenKeysDown\<lparr>logOut := logOut fifteenKeysDown @ [LogMPEPoolEmpty]\<rparr>"
    using empty_pool_drops_note[OF fifteenKeysDown_fields(2) fifteenKeysDown_fields(1) a]
      fifteenKeysDown_debug
    by (simp only: if_True)
  then show ?thesis
    using empty_pool_drops_note[OF fifteenKeysDown_fields(2) fifteenKeysDown_fields(1) a]
      fifteenKeysDown_fields a
    by blast
qed

text \<open>
  Counterexample to C4 as stated: the same scenario after "Serial Debug" was switched off.
  The 16th press is dropped and the state, hence the log, is unchanged: the event is not
  logged.
\<close>

theorem empty_pool_drop_not_logged_counterexample:
  "poolActive quietFifteenKeysDown \<and> mpeAvailableChannels quietFifteenKeysDown = []
   \<and> MIDIch (h quietFifteenKeysDown 16) = 0 \<and> noteNum (h quietFifteenKeysDown 16) < 128
   \<and> \<not> debugMessages quietFifteenKeysDown
   \<and> tryMIDInoteOn 16 quietFifteenKeysDown = quietFifteenKeysDown
   \<and> logOut (tryMIDInoteOn 16 quietFifteenKeysDown) = logOut quietFifteenKeysDown"
proof -
  let ?q = quietFifteenKeysDown
  have p: "poolActive ?q"
    using fifteenKeysDown_fields(2)
    by (simp add: quietFifteenKeysDown_def poolActive_def mpePlayableChannelCount_def split: if_splits)
  have q: "mpeAvailableChannels ?q = []" "MIDIch (h ?q 16) = 0" "noteNum (h ?q 16) < 128"
    "\<not> debugMessages ?q"
    by (simp_all add: quietFifteenKeysDown_def fifteenKeysDown_fields initialButton_def)
  have c: "MPEpitchBendsNeeded ?q \<noteq> 1" "mpePlayableChannelCount ?q \<noteq> 0" "mpeChannelQueueActive ?q"
    using p by (simp_all add: poolActive_def)
  have e: "tryMIDInoteOn 16 ?q = ?q"
    using noteOn_pool_empty[OF c q(1,2,3)] q(4) by (simp add: debugLines_def)
  show ?thesis using p q e by simp
qed

subsection \<open>Auxiliary facts: what the synth functions leave unchanged\<close>

lemma synthStepI:
  assumes "t = s\<lparr>h := hf, logOut := logOut s @ l, voices := vs, nextVoiceGeneration := g,
              synthChQueue := q, arpeggiatingNow := a\<rparr>"
    and "\<And>y. (hf y)\<lparr>synthCh := synthCh (h s y)\<rparr> = h s y"
  shows "synthStep s t"
  unfolding synthStep_def using assms by blast

lemma synthStep_refl [simp]: "synthStep s s"
  by (rule synthStepI[of _ "arpeggiatingNow s" "synthChQueue s" "nextVoiceGeneration s" "voices s" _ "[]" "h s"]) simp_all

lemma synthStep_trans:
  assumes "synthStep s t" "synthStep t u"
  shows "synthStep s u"
proof -
  obtain hf l vs g q a where t: "t = s\<lparr>h := hf, logOut := logOut s @ l, voices := vs, nextVoiceGeneration := g,
              synthChQueue := q, arpeggiatingNow := a\<rparr>"
    and hf: "\<forall>y. (hf y)\<lparr>synthCh := synthCh (h s y)\<rparr> = h s y"
    using assms(1) unfolding synthStep_def by blast
  obtain hf' l' vs' g' q' a' where u: "u = t\<lparr>h := hf', logOut := logOut t @ l', voices := vs', nextVoiceGeneration := g',
              synthChQueue := q', arpeggiatingNow := a'\<rparr>"
    and hf': "\<forall>y. (hf' y)\<lparr>synthCh := synthCh (h t y)\<rparr> = h t y"
    using assms(2) unfolding synthStep_def by blast
  have k: "(hf' y)\<lparr>synthCh := synthCh (h s y)\<rparr> = h s y" for y
  proof -
    have 1: "(hf' y)\<lparr>synthCh := synthCh (hf y)\<rparr> = hf y" using hf'[rule_format, of y] by (simp add: t)
    have "(hf' y)\<lparr>synthCh := synthCh (h s y)\<rparr> = ((hf' y)\<lparr>synthCh := synthCh (hf y)\<rparr>)\<lparr>synthCh := synthCh (h s y)\<rparr>"
      by simp
    also have "\<dots> = (hf y)\<lparr>synthCh := synthCh (h s y)\<rparr>" by (simp only: 1)
    also have "\<dots> = h s y" using hf by simp
    finally show ?thesis .
  qed
  show ?thesis
    by (rule synthStepI[of _ a' q' g' vs' _ "l @ l'" hf']) (simp_all add: u t k)
qed

lemma synthStep_prims [simp]:
  "synthStep s (setVoice i f s)"
  "synthStep s (setButton x (\<lambda>b. b\<lparr>synthCh := c\<rparr>) s)"
  "synthStep s (sendToLog ll s)"
  "synthStep s (s\<lparr>synthChQueue := q\<rparr>)"
  "synthStep s (s\<lparr>nextVoiceGeneration := g\<rparr>)"
  "synthStep s (s\<lparr>arpeggiatingNow := a\<rparr>)"
proof -
  show "synthStep s (setVoice i f s)"
    by (rule synthStepI[of _ "arpeggiatingNow s" "synthChQueue s" "nextVoiceGeneration s" "(voices s)[i := f (voices s ! i)]" _ "[]" "h s"])
       (simp_all add: setVoice_def)
  show "synthStep s (setButton x (\<lambda>b. b\<lparr>synthCh := c\<rparr>) s)"
    by (rule synthStepI[of _ "arpeggiatingNow s" "synthChQueue s" "nextVoiceGeneration s" "voices s" _ "[]" "(h s)(x := (h s x)\<lparr>synthCh := c\<rparr>)"])
       (simp_all add: setButton_def)
  show "synthStep s (sendToLog ll s)"
    by (rule synthStepI[of _ "arpeggiatingNow s" "synthChQueue s" "nextVoiceGeneration s" "voices s" _ "debugLines s [ll]" "h s"])
       (simp_all add: sendToLog_alt)
  show "synthStep s (s\<lparr>synthChQueue := q\<rparr>)"
    by (rule synthStepI[of _ "arpeggiatingNow s" q "nextVoiceGeneration s" "voices s" _ "[]" "h s"]) simp_all
  show "synthStep s (s\<lparr>nextVoiceGeneration := g\<rparr>)"
    by (rule synthStepI[of _ "arpeggiatingNow s" "synthChQueue s" g "voices s" _ "[]" "h s"]) simp_all
  show "synthStep s (s\<lparr>arpeggiatingNow := a\<rparr>)"
    by (rule synthStepI[of _ a "synthChQueue s" "nextVoiceGeneration s" "voices s" _ "[]" "h s"]) simp_all
qed

lemma synthStep_then:
  assumes "synthStep s t" "\<And>u. synthStep u (g u)"
  shows "synthStep s (g t)"
  using synthStep_trans[OF assms(1) assms(2)] .

lemma synthStep_lift:
  assumes "synthStep s t"
  shows "synthStep s (setVoice i f t)"
    and "synthStep s (setButton x (\<lambda>b. b\<lparr>synthCh := c\<rparr>) t)"
    and "synthStep s (sendToLog ll t)"
    and "synthStep s (t\<lparr>synthChQueue := q\<rparr>)"
    and "synthStep s (t\<lparr>nextVoiceGeneration := g\<rparr>)"
    and "synthStep s (t\<lparr>arpeggiatingNow := a\<rparr>)"
  by (rule synthStep_trans[OF assms], simp)+

lemma synthStep_if:
  "(c \<Longrightarrow> synthStep s t) \<Longrightarrow> (\<not> c \<Longrightarrow> synthStep s u) \<Longrightarrow> synthStep s (if c then t else u)"
  by simp

lemma synthStep_fold:
  assumes "\<And>i u. synthStep s u \<Longrightarrow> synthStep s (f i u)" "synthStep s t"
  shows "synthStep s (fold f is t)"
  using assms(2) by (induction "is" arbitrary: t) (simp_all add: assms(1))

lemma synthStep_beginAttack: "synthStep s t \<Longrightarrow> synthStep s (beginEnvelopeAttack c t)"
  unfolding beginEnvelopeAttack_def by (rule synthStep_lift)

lemma synthStep_beginRelease: "synthStep s t \<Longrightarrow> synthStep s (beginEnvelopeRelease c t)"
  unfolding beginEnvelopeRelease_def by (intro synthStep_if synthStep_lift)

lemma synthStep_stamp: "synthStep s t \<Longrightarrow> synthStep s (stampVoice i x t)"
  unfolding stampVoice_def by (intro synthStep_lift)

lemma synthStep_setSynthFreq: "synthStep s t \<Longrightarrow> synthStep s (setSynthFreq f c t)"
  unfolding setSynthFreq_def Let_def by (intro synthStep_if synthStep_lift)

lemma synthStep_startVoice: "synthStep s t \<Longrightarrow> synthStep s (startVoice x c t)"
  unfolding startVoice_def Let_def
  by (intro synthStep_setSynthFreq synthStep_beginAttack synthStep_stamp synthStep_lift)

lemma synthStep_processRelease: "synthStep s t \<Longrightarrow> synthStep s (processEnvelopeRelease i t)"
  unfolding processEnvelopeRelease_def Let_def
  by (intro synthStep_if synthStep_lift)

lemma synthStep_processReleases: "synthStep s t \<Longrightarrow> synthStep s (processEnvelopeReleases t)"
  unfolding processEnvelopeReleases_def
  by (rule synthStep_fold) (rule synthStep_processRelease)

lemma synthStep_replaceMono: "synthStep s t \<Longrightarrow> synthStep s (replaceMonoSynthWith x t)"
  unfolding replaceMonoSynthWith_def Let_def
  by (intro synthStep_if synthStep_setSynthFreq synthStep_beginAttack synthStep_beginRelease
      synthStep_stamp synthStep_lift)

lemma synthStep_releaseByOwner: "synthStep s t \<Longrightarrow> synthStep s (releaseByOwner x t)"
  unfolding releaseByOwner_def
  by (cases "List.find (\<lambda>i. channelInUse (voices t ! i) \<and> synthChannelOwner (voices t ! i) = ucast x)
             [0..<POLYPHONY_LIMIT]")
     (simp_all add: synthStep_beginRelease synthStep_lift)

lemma synthStep_noteOff: "synthStep s t \<Longrightarrow> synthStep s (trySynthNoteOff x t)"
  unfolding trySynthNoteOff_def
  by (intro synthStep_if synthStep_replaceMono synthStep_beginRelease synthStep_releaseByOwner
      synthStep_lift)

lemma synthStep_noteOn: "synthStep s t \<Longrightarrow> synthStep s (trySynthNoteOn x t)"
proof -
  assume a: "synthStep s t"
  let ?s1 = "processEnvelopeReleases t"
  have p: "synthStep s ?s1" by (rule synthStep_processReleases[OF a])
  have poly: "synthStep s (case synthChQueue ?s1 of
              [] \<Rightarrow>
                (case stealOldestSynthVoice ?s1 of
                   None \<Rightarrow> sendToLog LogSynthAllFiring ?s1
                 | Some (stolenChannel, previousOwner) \<Rightarrow>
                     let s2 = (if 0 \<le> sint previousOwner \<and> sint previousOwner < int BTN_COUNT
                                  \<and> synthCh (h ?s1 (ucast previousOwner)) = stolenChannel
                               then setButton (ucast previousOwner) (\<lambda>b. b\<lparr>synthCh := 0\<rparr>) ?s1
                               else ?s1)
                     in sendToLog (LogStoleSynthChannel stolenChannel) (startVoice x stolenChannel s2))
            | channel # rest \<Rightarrow>
                sendToLog (LogPoppedSynthQueue channel)
                  (startVoice x channel (?s1\<lparr>synthChQueue := rest\<rparr>)))"
  proof (cases "synthChQueue ?s1")
    case Nil
    show ?thesis
    proof (cases "stealOldestSynthVoice ?s1")
      case None
      then show ?thesis using Nil by (simp add: synthStep_lift[OF p])
    next
      case (Some pr)
      obtain sc po where pr: "pr = (sc, po)" by (cases pr)
      show ?thesis
        unfolding Nil Some pr Let_def
        apply (simp only: list.case option.case prod.case)
        apply (intro synthStep_lift synthStep_startVoice synthStep_if p)
        done
    qed
  next
    case (Cons c rest)
    show ?thesis
      unfolding Cons
      apply (simp only: list.case)
      apply (intro synthStep_lift synthStep_startVoice p)
      done
  qed
  show ?thesis
    unfolding trySynthNoteOn_def Let_def
    apply (intro synthStep_if a synthStep_replaceMono)
    apply (rule poly[unfolded Let_def])
    done
qed

lemma synthStep_fields:
  assumes "synthStep s t"
  shows "mpeAvailableChannels t = mpeAvailableChannels s" "pressedKeyIDs t = pressedKeyIDs s"
    "mpeLowestChannel t = mpeLowestChannel s" "mpeHighestChannel t = mpeHighestChannel s"
    "mpeLowPriorityMode t = mpeLowPriorityMode s" "mpeChannelQueueActive t = mpeChannelQueueActive s"
    "MPEpitchBendsNeeded t = MPEpitchBendsNeeded s" "usbOut t = usbOut s" "serialOut t = serialOut s"
    "playbackMode t = playbackMode s" "envelopeParams t = envelopeParams s"
    "MIDIch (h t y) = MIDIch (h s y)" "noteNum (h t y) = noteNum (h s y)"
proof -
  obtain hf l vs g q a where t: "t = s\<lparr>h := hf, logOut := logOut s @ l, voices := vs, nextVoiceGeneration := g,
              synthChQueue := q, arpeggiatingNow := a\<rparr>"
    and hf: "\<forall>y. (hf y)\<lparr>synthCh := synthCh (h s y)\<rparr> = h s y"
    using assms unfolding synthStep_def by blast
  show "mpeAvailableChannels t = mpeAvailableChannels s" "pressedKeyIDs t = pressedKeyIDs s"
    "mpeLowestChannel t = mpeLowestChannel s" "mpeHighestChannel t = mpeHighestChannel s"
    "mpeLowPriorityMode t = mpeLowPriorityMode s" "mpeChannelQueueActive t = mpeChannelQueueActive s"
    "MPEpitchBendsNeeded t = MPEpitchBendsNeeded s" "usbOut t = usbOut s" "serialOut t = serialOut s"
    "playbackMode t = playbackMode s" "envelopeParams t = envelopeParams s"
    by (simp_all add: t)
  have "MIDIch ((hf y)\<lparr>synthCh := synthCh (h s y)\<rparr>) = MIDIch (h s y)"
    "noteNum ((hf y)\<lparr>synthCh := synthCh (h s y)\<rparr>) = noteNum (h s y)"
    using hf by simp_all
  then show "MIDIch (h t y) = MIDIch (h s y)" "noteNum (h t y) = noteNum (h s y)"
    by (simp_all add: t)
qed

subsection \<open>Auxiliary facts: the channel invariant\<close>

lemma count_take_drop:
  "count_list (take n xs) d + count_list (drop n xs) d = count_list xs d"
  by (metis append_take_drop_id count_list_append)

lemma poolAfterRelease_count:
  assumes "mpeChannelQueueActive s"
  shows "count_list (poolAfterRelease c s) d =
     count_list (mpeAvailableChannels s) d
       + (if c = d \<and> mpeLowestChannel s \<le> c \<and> c \<le> mpeHighestChannel s then 1 else 0)"
  using assms by (simp add: poolAfterRelease_def count_take_drop)

lemma poolAfterRelease_set:
  "set (poolAfterRelease c s) \<subseteq> set (mpeAvailableChannels s)
      \<union> (if mpeLowestChannel s \<le> c \<and> c \<le> mpeHighestChannel s then {c} else {})"
proof -
  have "set (take n xs) \<union> set (drop n xs) = set xs" for n and xs :: "byte list"
    by (metis append_take_drop_id set_append)
  then show ?thesis
    by (auto simp: poolAfterRelease_def dest: in_set_takeD in_set_dropD)
qed

lemma poolInv_noteOff:
  assumes "poolInv s"
  shows "poolInv (tryMIDInoteOff x s)"
proof (cases "MIDIch (h s x) = 0")
  case True
  then have "tryMIDInoteOff x s = s" by (simp add: tryMIDInoteOff_def)
  then show ?thesis using assms by simp
next
  case False
  let ?t = "tryMIDInoteOff x s"
  let ?c0 = "MIDIch (h s x)"
  note f = noteOff_frame[of x s]
  have act: "poolActive s" and lo2: "2 \<le> mpeLowestChannel s"
    and sub: "set (mpeAvailableChannels s) \<subseteq> {mpeLowestChannel s..mpeHighestChannel s}"
    and ex: "channelExclusive s"
    using assms by (simp_all add: poolInv_def)
  have q: "mpeChannelQueueActive s" using act by (simp add: poolActive_def)
  have pool: "mpeAvailableChannels ?t = poolAfterRelease ?c0 s" using False by (simp add: f(19))
  have hx: "MIDIch (h ?t x) = 0" by (rule f(17))
  have hy: "\<And>y. y \<noteq> x \<Longrightarrow> h ?t y = h s y" using f(14) by blast
  have sub': "set (mpeAvailableChannels ?t) \<subseteq> {mpeLowestChannel ?t..mpeHighestChannel ?t}"
    unfolding pool f(4) f(5) using poolAfterRelease_set[of ?c0 s] sub by (auto split: if_splits)
  have ex': "channelExclusive ?t"
    unfolding channelExclusive_def f(4) f(5)
  proof (intro allI impI)
    fix ch assume r: "mpeLowestChannel s \<le> ch \<and> ch \<le> mpeHighestChannel s"
    then have ch0: "ch \<noteq> 0" using lo2 by auto
    have old: "count_list (mpeAvailableChannels s) ch + card {y. MIDIch (h s y) = ch} = 1"
      using ex r unfolding channelExclusive_def by blast
    have sets: "{y. MIDIch (h ?t y) = ch} = {y. MIDIch (h s y) = ch} - {x}"
    proof (rule set_eqI)
      fix y show "y \<in> {y. MIDIch (h ?t y) = ch} \<longleftrightarrow> y \<in> {y. MIDIch (h s y) = ch} - {x}"
        using hx hy[of y] ch0 by (cases "y = x") auto
    qed
    show "count_list (mpeAvailableChannels ?t) ch + card {y. MIDIch (h ?t y) = ch} = 1"
    proof (cases "ch = ?c0")
      case True
      then have "x \<in> {y. MIDIch (h s y) = ch}" by simp
      then have "card ({y. MIDIch (h s y) = ch} - {x}) = card {y. MIDIch (h s y) = ch} - 1"
        and "card {y. MIDIch (h s y) = ch} \<ge> 1"
        by (simp_all add: card_gt_0_iff Suc_le_eq) blast
      then show ?thesis
        unfolding pool sets poolAfterRelease_count[OF q] using True r old by simp
    next
      case False
      then have "x \<notin> {y. MIDIch (h s y) = ch}" by auto
      then have "{y. MIDIch (h s y) = ch} - {x} = {y. MIDIch (h s y) = ch}" by blast
      then show ?thesis
        unfolding pool sets poolAfterRelease_count[OF q] using False old by simp
    qed
  qed
  show ?thesis
    unfolding poolInv_def using act lo2 sub' ex' by (simp add: f(4))
qed

lemma poolInv_cong:
  assumes "MPEpitchBendsNeeded t = MPEpitchBendsNeeded s" "mpeLowestChannel t = mpeLowestChannel s"
    "mpeHighestChannel t = mpeHighestChannel s" "mpeChannelQueueActive t = mpeChannelQueueActive s"
    "mpeAvailableChannels t = mpeAvailableChannels s" "\<And>y. MIDIch (h t y) = MIDIch (h s y)"
  shows "poolInv t = poolInv s"
  by (simp add: poolInv_def poolActive_def channelExclusive_def mpePlayableChannelCount_def assms)

lemma poolInv_synthStep: "synthStep s t \<Longrightarrow> poolInv t = poolInv s"
  by (rule poolInv_cong) (simp_all add: synthStep_fields)

lemma poolInv_noteOn:
  assumes "poolInv s"
  shows "poolInv (tryMIDInoteOn x s)"
proof (cases "noteNum (h s x) \<ge> 128 \<or> MIDIch (h s x) \<noteq> 0")
  case True
  then have "tryMIDInoteOn x s = s" by (auto simp: tryMIDInoteOn_def)
  then show ?thesis using assms by simp
next
  case False
  then have n: "noteNum (h s x) < 128" and z: "MIDIch (h s x) = 0" by (auto simp: not_le)
  let ?t = "tryMIDInoteOn x s"
  have act: "poolActive s" and lo2: "2 \<le> mpeLowestChannel s"
    and sub: "set (mpeAvailableChannels s) \<subseteq> {mpeLowestChannel s..mpeHighestChannel s}"
    and ex: "channelExclusive s"
    using assms by (simp_all add: poolInv_def)
  have c: "MPEpitchBendsNeeded s \<noteq> 1" "mpePlayableChannelCount s \<noteq> 0" "mpeChannelQueueActive s"
    using act by (simp_all add: poolActive_def)
  show ?thesis
  proof (cases "mpeAvailableChannels s")
    case Nil
    have e: "?t = s\<lparr>logOut := logOut s @ debugLines s [LogMPEPoolEmpty]\<rparr>"
      by (rule noteOn_pool_empty[OF c Nil z n])
    have "poolInv ?t = poolInv s" unfolding e by (rule poolInv_cong) simp_all
    then show ?thesis using assms by simp
  next
    case (Cons ch rest)
    have chr: "mpeLowestChannel s \<le> ch" "ch \<le> mpeHighestChannel s" using sub Cons by auto
    then have ch0: "ch \<noteq> 0" using lo2 by auto
    note f = noteOn_take_fields[OF act Cons ch0 z n]
    note fr = noteOn_frame[where x=x and s=s]
    have hy: "\<And>y. y \<noteq> x \<Longrightarrow> h ?t y = h s y" by (rule fr(14))
    have sub': "set (mpeAvailableChannels ?t) \<subseteq> {mpeLowestChannel ?t..mpeHighestChannel ?t}"
      unfolding f(1) fr(4) fr(5) using sub Cons by auto
    have ex': "channelExclusive ?t"
      unfolding channelExclusive_def fr(4) fr(5)
    proof (intro allI impI)
      fix d assume r: "mpeLowestChannel s \<le> d \<and> d \<le> mpeHighestChannel s"
      then have d0: "d \<noteq> 0" using lo2 by auto
      have old: "count_list (mpeAvailableChannels s) d + card {y. MIDIch (h s y) = d} = 1"
        using ex r unfolding channelExclusive_def by blast
      have xn: "x \<notin> {y. MIDIch (h s y) = d}" using z d0 by auto
      show "count_list (mpeAvailableChannels ?t) d + card {y. MIDIch (h ?t y) = d} = 1"
      proof (cases "d = ch")
        case True
        have sets: "{y. MIDIch (h ?t y) = d} = insert x {y. MIDIch (h s y) = d}"
        proof (rule set_eqI)
          fix y show "y \<in> {y. MIDIch (h ?t y) = d} \<longleftrightarrow> y \<in> insert x {y. MIDIch (h s y) = d}"
            using f(2) hy[of y] True by (cases "y = x") auto
        qed
        have "card (insert x {y. MIDIch (h s y) = d}) = Suc (card {y. MIDIch (h s y) = d})"
          using xn by simp
        then show ?thesis unfolding f(1) sets using old True Cons by simp
      next
        case False
        have sets: "{y. MIDIch (h ?t y) = d} = {y. MIDIch (h s y) = d}"
        proof (rule set_eqI)
          fix y show "y \<in> {y. MIDIch (h ?t y) = d} \<longleftrightarrow> y \<in> {y. MIDIch (h s y) = d}"
            using f(2) hy[of y] False z d0 by (cases "y = x") auto
        qed
        show ?thesis unfolding f(1) sets using old False Cons by simp
      qed
    qed
    show ?thesis
      unfolding poolInv_def using act lo2 sub' ex' by (simp add: fr(4))
  qed
qed

lemma poolInv_keyEvent: "poolInv s \<Longrightarrow> poolInv (keyEvent s e)"
proof (cases e)
  case (NewPress x)
  assume "poolInv s"
  then have "poolInv (tryMIDInoteOn x s)" by (rule poolInv_noteOn)
  moreover have "synthStep (tryMIDInoteOn x s) (trySynthNoteOn x (tryMIDInoteOn x s))"
    by (rule synthStep_noteOn) simp
  ultimately show ?thesis using NewPress by (simp add: poolInv_synthStep)
next
  case (Released x)
  assume "poolInv s"
  then have "poolInv (tryMIDInoteOff x s)" by (rule poolInv_noteOff)
  moreover have "synthStep (tryMIDInoteOff x s) (trySynthNoteOff x (tryMIDInoteOff x s))"
    by (rule synthStep_noteOff) simp
  ultimately show ?thesis using Released by (simp add: poolInv_synthStep)
qed

lemma poolInv_events: "poolInv s \<Longrightarrow> poolInv (foldl keyEvent s evs)"
  by (induction evs arbitrary: s) (simp_all add: poolInv_keyEvent)

lemma count_list_distinct: "distinct xs \<Longrightarrow> count_list xs d = (if d \<in> set xs then 1 else 0)"
  by (induction xs) auto

lemma byte_range_list:
  fixes lo hi :: byte
  assumes "lo \<le> hi"
  shows "distinct (map of_nat [unat lo..<Suc (unat hi)] :: byte list)"
    and "set (map of_nat [unat lo..<Suc (unat hi)] :: byte list) = {lo..hi}"
proof -
  have inj: "inj_on (of_nat :: nat \<Rightarrow> byte) {unat lo..<Suc (unat hi)}"
  proof (rule inj_onI)
    fix a b assume a: "a \<in> {unat lo..<Suc (unat hi)}" and b: "b \<in> {unat lo..<Suc (unat hi)}"
      and e: "(of_nat a :: byte) = of_nat b"
    have ab: "a \<le> unat hi" "b \<le> unat hi" using a b by auto
    have ua: "unat (of_nat a :: byte) = a" by (rule le_unat_uoi[OF ab(1)])
    have ub: "unat (of_nat b :: byte) = b" by (rule le_unat_uoi[OF ab(2)])
    from e have "unat (of_nat a :: byte) = unat (of_nat b :: byte)" by (rule arg_cong)
    then show "a = b" by (simp only: ua ub)
  qed
  show "distinct (map of_nat [unat lo..<Suc (unat hi)] :: byte list)"
    using inj by (simp add: distinct_map del: upt_Suc)
  show "set (map of_nat [unat lo..<Suc (unat hi)] :: byte list) = {lo..hi}"
  proof (rule set_eqI)
    fix c :: byte
    have "c \<in> set (map of_nat [unat lo..<Suc (unat hi)]) \<longleftrightarrow> (\<exists>n. unat lo \<le> n \<and> n \<le> unat hi \<and> c = of_nat n)"
      by (auto simp: image_iff simp del: upt_Suc)
    also have "\<dots> \<longleftrightarrow> unat lo \<le> unat c \<and> unat c \<le> unat hi"
    proof
      assume "\<exists>n. unat lo \<le> n \<and> n \<le> unat hi \<and> c = of_nat n"
      then obtain n where n: "unat lo \<le> n" "n \<le> unat hi" "c = of_nat n" by blast
      have "unat (of_nat n :: byte) = n" by (rule le_unat_uoi[OF n(2)])
      then have "unat c = n" by (simp only: n(3))
      then show "unat lo \<le> unat c \<and> unat c \<le> unat hi" using n(1,2) by simp
    next
      assume "unat lo \<le> unat c \<and> unat c \<le> unat hi"
      then show "\<exists>n. unat lo \<le> n \<and> n \<le> unat hi \<and> c = of_nat n"
        by (intro exI[of _ "unat c"]) simp
    qed
    also have "\<dots> \<longleftrightarrow> c \<in> {lo..hi}" by (simp add: word_le_nat_alt)
    finally show "c \<in> set (map of_nat [unat lo..<Suc (unat hi)]) \<longleftrightarrow> c \<in> {lo..hi}" .
  qed
qed

lemma poolInv_reset:
  assumes "1 < MPEpitchBendsNeeded (selectPitchBendMode s0)" "\<forall>x. MIDIch (h s0 x) = 0"
  shows "poolInv (resetTuningMIDI s0)"
proof -
  let ?r = "resetTuningMIDI s0"
  let ?c = "clampMPEChannelRange s0"
  let ?lo = "mpeLowestChannel ?c" and ?hi = "mpeHighestChannel ?c"
  note e = resetTuningMIDI_enabled[OF assms(1), simplified clamp_select]
  have r: "2 \<le> ?lo" "?lo \<le> ?hi" "?hi \<le> 16" by (rule clamp_range)+
  have pl: "mpePlayableChannelCount ?r \<noteq> 0"
    using playable_clamped(1)[of s0]
    by (simp add: mpePlayableChannelCount_def e(4) e(5) split: if_splits)
  have act: "poolActive ?r"
    unfolding poolActive_def using pl e(6) by (simp add: e(9))
  let ?xs = "map of_nat [unat ?lo..<Suc (unat ?hi)] :: byte list"
  have pool: "mpeAvailableChannels ?r = (if mpeLowPriorityMode s0 then sort else id) ?xs"
    using e(7) by simp
  have d: "distinct (mpeAvailableChannels ?r)" and st: "set (mpeAvailableChannels ?r) = {?lo..?hi}"
    unfolding pool using byte_range_list[OF r(2)] by (simp_all del: upt_Suc)
  have ex: "channelExclusive ?r"
    unfolding channelExclusive_def e(4) e(5)
  proof (intro allI impI)
    fix ch assume c: "?lo \<le> ch \<and> ch \<le> ?hi"
    then have "ch \<noteq> 0" using r(1) by auto
    then have "{x. MIDIch (h ?r x) = ch} = {}" using assms(2) by (auto simp: e(8))
    moreover have "count_list (mpeAvailableChannels ?r) ch = 1"
      using c by (simp add: count_list_distinct[OF d] st)
    ultimately show "count_list (mpeAvailableChannels ?r) ch + card {x. MIDIch (h ?r x) = ch} = 1"
      by simp
  qed
  show ?thesis
    unfolding poolInv_def e(4) e(5) using act r(1) st ex by (simp add: e(4) e(5))
qed

lemma keyEvent_range:
  "mpeLowestChannel (keyEvent s e) = mpeLowestChannel s"
  "mpeHighestChannel (keyEvent s e) = mpeHighestChannel s"
proof -
  have a: "synthStep (tryMIDInoteOn x s) (trySynthNoteOn x (tryMIDInoteOn x s))" for x
    by (rule synthStep_noteOn) simp
  have b: "synthStep (tryMIDInoteOff x s) (trySynthNoteOff x (tryMIDInoteOff x s))" for x
    by (rule synthStep_noteOff) simp
  show "mpeLowestChannel (keyEvent s e) = mpeLowestChannel s"
    by (cases e) (simp_all add: synthStep_fields(3)[OF a] synthStep_fields(3)[OF b]
        noteOn_frame(4) noteOff_frame(4))
  show "mpeHighestChannel (keyEvent s e) = mpeHighestChannel s"
    by (cases e) (simp_all add: synthStep_fields(4)[OF a] synthStep_fields(4)[OF b]
        noteOn_frame(5) noteOff_frame(5))
qed

lemma events_range:
  "mpeLowestChannel (foldl keyEvent s evs) = mpeLowestChannel s
   \<and> mpeHighestChannel (foldl keyEvent s evs) = mpeHighestChannel s"
  by (induction evs arbitrary: s) (simp_all add: keyEvent_range)

subsection \<open>Channel exclusivity\<close>

text \<open>
  Between two rebuilds of the pool the invariant is kept: from a pool rebuilt by
  \<open>resetTuningMIDI\<close> while no key holds a channel, through any sequence of key presses and
  releases, the pool stays active and every channel of the range is once in the pool or the
  channel of exactly one key.
\<close>

lemma channelExclusive_between_rebuilds:
  assumes "1 < MPEpitchBendsNeeded (selectPitchBendMode s0)" "\<forall>x. MIDIch (h s0 x) = 0"
  shows "poolActive (foldl keyEvent (resetTuningMIDI s0) evs)
     \<and> channelExclusive (foldl keyEvent (resetTuningMIDI s0) evs)"
  using poolInv_events[OF poolInv_reset[OF assms], of evs] by (simp add: poolInv_def)

lemma heldKeyRebuilt_fields:
  "mpeLowestChannel heldKeyRebuilt = 2" "mpeHighestChannel heldKeyRebuilt = 15"
  "mpeAvailableChannels heldKeyRebuilt = [2, 3, 4, 5, 6, 7, 8, 9, 10, 11, 12, 13, 14, 15]"
  "poolActive heldKeyRebuilt" "MIDIch (h heldKeyRebuilt 3) = 2"
  "h heldKeyRebuilt 5 = initialButton\<lparr>noteNum := 60\<rparr>"
proof -
  let ?p = "tryMIDInoteOn 3 mpeKeysState"
  let ?q = "?p\<lparr>mpeHighestChannel := 15\<rparr>"
  let ?S = "mpeForcedState\<lparr>h := (\<lambda>i. initialButton\<lparr>noteNum := 60\<rparr>)\<rparr>"
  have m0: "1 < MPEpitchBendsNeeded (selectPitchBendMode ?S)"
    by (simp add: selectPitchBendMode_def mpeForcedState_def initialState_def Let_def)
  have um0: "mpeUserMode mpeKeysState = mpeUserMode ?S"
    unfolding mpeKeysState_def by (rule resetTuningMIDI_enabled(11)[OF m0])
  have lp0: "mpeLowPriorityMode mpeKeysState = mpeLowPriorityMode ?S"
    unfolding mpeKeysState_def by (rule resetTuningMIDI_enabled(12)[OF m0])
  have um: "mpeUserMode ?q = MPE_MODE_FORCE"
    by (simp add: debugMessages_kept(2) um0 mpeForcedState_def)
  have lp: "\<not> mpeLowPriorityMode ?q"
    by (simp add: noteOn_frame(6) lp0 mpeForcedState_def initialState_def)
  have m: "1 < MPEpitchBendsNeeded (selectPitchBendMode ?q)"
    using um by (simp add: selectPitchBendMode_def Let_def)
  have lo: "mpeLowestChannel ?q = 2" by (simp add: noteOn_frame(4) mpeKeysState_fields(4))
  have c: "mpeLowestChannel (clampMPEChannelRange ?q) = 2"
    "mpeHighestChannel (clampMPEChannelRange ?q) = 15"
    by (simp_all add: clampMPEChannelRange_def Let_def lo)
  have k: "MIDIch (h mpeKeysState 3) = 0" "noteNum (h mpeKeysState 3) < 128"
    by (simp_all add: mpeKeysState_fields(3) initialButton_def)
  have pool: "mpeAvailableChannels mpeKeysState = 2 # [3, 4, 5, 6, 7, 8, 9, 10, 11, 12, 13, 14, 15, 16]"
    by (simp add: mpeKeysState_fields(1))
  note f = noteOn_take_fields[OF mpeKeysState_fields(2) pool _ k]
  note e = resetTuningMIDI_enabled[OF m, folded heldKeyRebuilt_def]
  show l: "mpeLowestChannel heldKeyRebuilt = 2" unfolding e(4) by (simp add: c)
  show u: "mpeHighestChannel heldKeyRebuilt = 15" unfolding e(5) by (simp add: c)
  show "mpeAvailableChannels heldKeyRebuilt = [2, 3, 4, 5, 6, 7, 8, 9, 10, 11, 12, 13, 14, 15]"
    unfolding e(7) using lp by (simp add: c upt_rec)
  show "poolActive heldKeyRebuilt"
    unfolding poolActive_def mpePlayableChannelCount_def l u using e(6) by (simp add: e(9))
  show "MIDIch (h heldKeyRebuilt 3) = 2" unfolding e(8) using f(2) by simp
  have "h ?p 5 = h mpeKeysState 5" by (rule noteOn_frame(14)) simp
  then show "h heldKeyRebuilt 5 = initialButton\<lparr>noteNum := 60\<rparr>"
    unfolding e(8) by (simp add: mpeKeysState_fields(3))
qed

lemma heldKeyRebuilt_not_exclusive: "\<not> channelExclusive heldKeyRebuilt"
proof -
  note f = heldKeyRebuilt_fields
  have fin: "finite {x. MIDIch (h heldKeyRebuilt x) = 2}" by simp
  have "3 \<in> {x. MIDIch (h heldKeyRebuilt x) = 2}" using f(5) by simp
  then have "card {x. MIDIch (h heldKeyRebuilt x) = 2} \<noteq> 0" using fin by auto
  moreover have "count_list (mpeAvailableChannels heldKeyRebuilt) 2 = 1" by (simp add: f(3))
  ultimately have "count_list (mpeAvailableChannels heldKeyRebuilt) 2
      + card {x. MIDIch (h heldKeyRebuilt x) = 2} \<noteq> 1" by simp
  moreover have "mpeLowestChannel heldKeyRebuilt \<le> 2 \<and> 2 \<le> mpeHighestChannel heldKeyRebuilt"
    by (simp add: f(1) f(2))
  ultimately show ?thesis
    unfolding channelExclusive_def by blast
qed

text \<open>
  Claim C3 says that while the pool is active every channel of the range is, at every point
  between operations, either once in the free pool or the channel of exactly one held key,
  never both. The firmware breaks this when the pool is rebuilt while a key is held: the menu
  hooks call \<open>resetTuningMIDI\<close>, which refills the pool with the whole range and leaves the
  channels of the held keys in place (only the panic path clears them first). At
  \<open>heldKeyRebuilt\<close> the pool is active with range 2 to 15, channel 2 is once in the pool and
  is also the channel of the held key 3; the next press (key 5) is given channel 2 as well,
  so that two held keys share the channel.
\<close>

theorem pool_rebuild_duplicates_held_channel:
  "poolActive heldKeyRebuilt
   \<and> mpeLowestChannel heldKeyRebuilt = 2 \<and> mpeHighestChannel heldKeyRebuilt = 15
   \<and> mpeAvailableChannels heldKeyRebuilt = [2, 3, 4, 5, 6, 7, 8, 9, 10, 11, 12, 13, 14, 15]
   \<and> count_list (mpeAvailableChannels heldKeyRebuilt) 2 = 1
   \<and> MIDIch (h heldKeyRebuilt 3) = 2
   \<and> MIDIch (h (tryMIDInoteOn 5 heldKeyRebuilt) 5) = 2
   \<and> MIDIch (h (tryMIDInoteOn 5 heldKeyRebuilt) 3) = 2"
proof -
  note f = heldKeyRebuilt_fields
  have k: "MIDIch (h heldKeyRebuilt 5) = 0" "noteNum (h heldKeyRebuilt 5) < 128"
    by (simp_all add: f(6) initialButton_def)
  have pool: "mpeAvailableChannels heldKeyRebuilt = 2 # [3, 4, 5, 6, 7, 8, 9, 10, 11, 12, 13, 14, 15]"
    by (simp add: f(3))
  note t = noteOn_take_fields[OF f(4) pool _ k]
  have "h (tryMIDInoteOn 5 heldKeyRebuilt) 3 = h heldKeyRebuilt 3"
    by (rule noteOn_frame(14)) simp
  then have three: "MIDIch (h (tryMIDInoteOn 5 heldKeyRebuilt) 3) = 2" by (simp add: f(5))
  show ?thesis using f t(2) three by simp
qed

subsection \<open>Auxiliary facts: the steal scan\<close>












subsection \<open>Voice stealing\<close>





subsection \<open>Auxiliary facts: the audio tick\<close>

text \<open>
  The audio tick leaves alone what the steal scan reads: whether the voice is in use, its
  owner, and a nonzero generation tag (only the command \<open>Reset\<close> clears them).
\<close>

lemma applyCommand_keeps:
  assumes "command v \<noteq> Reset"
  shows "channelInUse (fst (applyCommand p g v)) = channelInUse v"
    and "synthChannelOwner (fst (applyCommand p g v)) = synthChannelOwner v"
    and "voiceGeneration v \<noteq> 0 \<Longrightarrow> voiceGeneration (fst (applyCommand p g v)) = voiceGeneration v"
  using assms
  by (cases "command v"; simp add: applyCommand_def Let_def)+

lemma advanceEnvelope_keeps:
  "channelInUse (advanceEnvelope p v) = channelInUse v"
  "synthChannelOwner (advanceEnvelope p v) = synthChannelOwner v"
  "voiceGeneration (advanceEnvelope p v) = voiceGeneration v"
  by (cases "stage v"; simp add: advanceEnvelope_def stepOscillator_def Let_def)+

lemma pollVoice_keeps:
  assumes "command v \<noteq> Reset"
  shows "channelInUse (fst (pollVoice p g v)) = channelInUse v"
    and "synthChannelOwner (fst (pollVoice p g v)) = synthChannelOwner v"
    and "voiceGeneration v \<noteq> 0 \<Longrightarrow> voiceGeneration (fst (pollVoice p g v)) = voiceGeneration v"
  using applyCommand_keeps[OF assms, of p g]
  by (simp_all add: pollVoice_def advanceEnvelope_keeps case_prod_unfold Let_def)

end
